theory Spec2Isabelle
  imports Complex_Main
begin

section \<open>Python values, exceptions and floats\<close>

text \<open>
  The notebook \<open>mountaincar_v0_sarsa_lambda_tilecode.ipynb\<close> defines a tile coder and two
  agents built on it. Codewords are Python tuples whose components are integers, or \<open>None\<close>
  when \<open>learn\<close> is called without \<open>action_next\<close>. Exceptions are values of a sum
  type: \<open>Inl\<close> carries the exception that ends the call.

  Floating-point numbers are idealised: a finite float is a real number, so rounding and
  overflow of finite values are outside the model. The non-finite values that NumPy's
  division by a zero scale produces are kept, because \<open>int\<close> raises on them. Properties
  that turn on rounding or overflow, such as the tile that an input at a tile boundary falls
  in, are therefore not stated here.
\<close>

datatype pyval = PInt int | PNone

type_synonym codeword = "pyval list"

datatype error = ZeroDivisionError | IndexError | ValueError | OverflowError

datatype npfloat = Fin real | FInf | FNaN

definition bind_err :: "error + 'a \<Rightarrow> ('a \<Rightarrow> error + 'b) \<Rightarrow> error + 'b" where
  "bind_err m f = (case m of Inl e \<Rightarrow> Inl e | Inr x \<Rightarrow> f x)"

fun mapM_err :: "('a \<Rightarrow> error + 'b) \<Rightarrow> 'a list \<Rightarrow> error + 'b list" where
  "mapM_err f [] = Inr []"
| "mapM_err f (x # xs) =
     bind_err (f x) (\<lambda>y. bind_err (mapM_err f xs) (\<lambda>ys. Inr (y # ys)))"

text \<open>\<open>f * n\<close>, \<open>f + n\<close> and \<open>f / n\<close> for a float \<open>f\<close> and a Python integer \<open>n\<close>.\<close>

fun fmul_int :: "npfloat \<Rightarrow> int \<Rightarrow> npfloat" where
  "fmul_int (Fin x) n = Fin (x * of_int n)"
| "fmul_int FInf n = (if n = 0 then FNaN else FInf)"
| "fmul_int FNaN n = FNaN"

fun fadd_int :: "npfloat \<Rightarrow> int \<Rightarrow> npfloat" where
  "fadd_int (Fin x) n = Fin (x + of_int n)"
| "fadd_int FInf n = FInf"
| "fadd_int FNaN n = FNaN"

text \<open>The divisor is \<open>self.layers\<close> inside the layer loop, which runs only when it is positive.\<close>

fun fdiv_int :: "npfloat \<Rightarrow> int \<Rightarrow> npfloat" where
  "fdiv_int (Fin x) n = (if n = 0 then (if x = 0 then FNaN else FInf) else Fin (x / of_int n))"
| "fdiv_int FInf n = FInf"
| "fdiv_int FNaN n = FNaN"

text \<open>Python's \<open>int\<close> on a float truncates towards zero and raises on \<open>inf\<close> and \<open>nan\<close>.\<close>

fun py_int :: "npfloat \<Rightarrow> error + int" where
  "py_int (Fin x) = Inr (if 0 \<le> x then \<lfloor>x\<rfloor> else \<lceil>x\<rceil>)"
| "py_int FInf = Inl OverflowError"
| "py_int FNaN = Inl ValueError"

section \<open>TileCoder\<close>

text \<open>
  The dictionary \<open>codebook\<close> is an association list in insertion order. A key is only ever
  stored when it is absent, so storing appends an entry and \<open>len\<close> is the length of the list.
  Python's built-in \<open>hash\<close> is a parameter \<open>h\<close> of every operation that may reach it.
\<close>

record TileCoder =
  layers :: int
  features :: int
  codebook :: "(codeword \<times> int) list"

definition TileCoder_init :: "int \<Rightarrow> int \<Rightarrow> TileCoder" where
  "TileCoder_init l f = \<lparr>layers = l, features = f, codebook = []\<rparr>"

definition get_feature ::
  "(codeword \<Rightarrow> int) \<Rightarrow> TileCoder \<Rightarrow> codeword \<Rightarrow> error + (int \<times> TileCoder)" where
  "get_feature h tc cw =
     (case map_of (codebook tc) cw of
        Some i \<Rightarrow> Inr (i, tc)
      | None \<Rightarrow>
          (let count = int (length (codebook tc)) in
           if count \<ge> features tc then
             (if features tc = 0 then Inl ZeroDivisionError
              else Inr (h cw mod features tc, tc))
           else Inr (count, tc\<lparr>codebook := codebook tc @ [(cw, count)]\<rparr>)))"

text \<open>One component \<open>int((f + (1 + dim * i) * layer) / self.layers)\<close> of a codeword.\<close>

definition tile_coord :: "int \<Rightarrow> int \<Rightarrow> int \<Rightarrow> nat \<times> npfloat \<Rightarrow> error + int" where
  "tile_coord L dm layer p =
     (case p of (i, f) \<Rightarrow> py_int (fdiv_int (fadd_int f ((1 + dm * int i) * layer)) L))"

definition make_codeword ::
  "TileCoder \<Rightarrow> npfloat list \<Rightarrow> pyval list \<Rightarrow> int \<Rightarrow> int \<Rightarrow> error + codeword" where
  "make_codeword tc scaled_floats ints dm layer =
     bind_err (mapM_err (tile_coord (layers tc) dm layer) (enumerate 0 scaled_floats))
       (\<lambda>cs. Inr ([PInt layer] @ map PInt cs @ ints))"

text \<open>The body of \<open>for layer in range(self.layers)\<close>; \<open>acc\<close> is the list \<open>features\<close>.\<close>

fun call_loop ::
  "(codeword \<Rightarrow> int) \<Rightarrow> npfloat list \<Rightarrow> pyval list \<Rightarrow> int \<Rightarrow> int list \<Rightarrow> TileCoder \<Rightarrow> int list
     \<Rightarrow> error + (int list \<times> TileCoder)" where
  "call_loop h sf ints dm [] tc acc = Inr (acc, tc)"
| "call_loop h sf ints dm (layer # rest) tc acc =
     bind_err (make_codeword tc sf ints dm layer) (\<lambda>cw.
     bind_err (get_feature h tc cw) (\<lambda>(feature, tc').
     call_loop h sf ints dm rest tc' (acc @ [feature])))"

definition TileCoder_call ::
  "(codeword \<Rightarrow> int) \<Rightarrow> TileCoder \<Rightarrow> npfloat list \<Rightarrow> pyval list \<Rightarrow> error + (int list \<times> TileCoder)" where
  "TileCoder_call h tc floats ints =
     (let dm = int (length floats);
          scaled_floats = map (\<lambda>f. fmul_int (fmul_int f (layers tc)) (layers tc)) floats
      in call_loop h scaled_floats ints dm (map int [0..<nat (layers tc)]) tc [])"

section \<open>NumPy array operations\<close>

text \<open>
  One-dimensional arrays are lists. A binary operation on two arrays needs equal lengths
  or one operand of length one, which is repeated; any other pair of shapes raises.
\<close>

definition np_broadcast :: "(real \<Rightarrow> real \<Rightarrow> 'a) \<Rightarrow> real list \<Rightarrow> real list \<Rightarrow> error + 'a list" where
  "np_broadcast f xs ys =
     (if length xs = length ys then Inr (map2 f xs ys)
      else if length xs = 1 then Inr (map (f (hd xs)) ys)
      else if length ys = 1 then Inr (map (\<lambda>x. f x (hd ys)) xs)
      else Inl ValueError)"

text \<open>Division of arrays does not raise on a zero divisor: it yields \<open>nan\<close> or an infinity.\<close>

definition np_divide :: "real \<Rightarrow> real \<Rightarrow> npfloat" where
  "np_divide x s = (if s = 0 then (if x = 0 then FNaN else FInf) else Fin (x / s))"

text \<open>An index into an array of length \<open>n\<close>: negative indices count from the end.\<close>

definition np_index :: "nat \<Rightarrow> int \<Rightarrow> error + nat" where
  "np_index n i =
     (if 0 \<le> i \<and> i < int n then Inr (nat i)
      else if - int n \<le> i \<and> i < 0 then Inr (nat (i + int n))
      else Inl IndexError)"

text \<open>\<open>a[idxs]\<close> and \<open>a[idxs] = v\<close> for a list of indices, and \<open>a += b\<close>.\<close>

definition np_getitem :: "real list \<Rightarrow> int list \<Rightarrow> error + real list" where
  "np_getitem xs idxs = mapM_err (\<lambda>i. bind_err (np_index (length xs) i) (\<lambda>j. Inr (xs ! j))) idxs"

fun np_setitem :: "real list \<Rightarrow> int list \<Rightarrow> real \<Rightarrow> error + real list" where
  "np_setitem xs [] v = Inr xs"
| "np_setitem xs (i # idxs) v =
     bind_err (np_index (length xs) i) (\<lambda>j. np_setitem (xs[j := v]) idxs v)"

definition np_iadd :: "real list \<Rightarrow> real list \<Rightarrow> error + real list" where
  "np_iadd xs ys =
     (if length ys = length xs then Inr (map2 (+) xs ys)
      else if length ys = 1 then Inr (map (\<lambda>x. x + hd ys) xs)
      else Inl ValueError)"

text \<open>\<open>np.argmax\<close> returns the first position of the largest entry and raises on an empty list.\<close>

fun argmax_scan :: "nat \<Rightarrow> real \<Rightarrow> nat \<Rightarrow> real list \<Rightarrow> nat" where
  "argmax_scan best bv i [] = best"
| "argmax_scan best bv i (x # xs) =
     (if bv < x then argmax_scan i x (Suc i) xs else argmax_scan best bv (Suc i) xs)"

definition np_argmax :: "real list \<Rightarrow> error + nat" where
  "np_argmax xs = (case xs of [] \<Rightarrow> Inl ValueError | x # rest \<Rightarrow> Inr (argmax_scan 0 x 1 rest))"

section \<open>SARSAAgent and SARSALambdaAgent\<close>

text \<open>
  The environment supplies the number of actions and the bounds of an observation.
  \<open>SARSALambdaAgent\<close> extends \<open>SARSAAgent\<close> by \<open>lambd\<close> and the trace \<open>z\<close>. Every method
  that encodes an observation may grow the encoder's codebook, so it returns the agent too.
\<close>

record Env =
  action_space_n :: int
  observation_space_low :: "real list"
  observation_space_high :: "real list"

record SARSAAgent =
  action_n :: int
  obs_low :: "real list"
  obs_scale :: "real list"
  encoder :: TileCoder
  w :: "real list"
  gamma :: real
  learning_rate :: real
  epsilon :: real

record SARSALambdaAgent = SARSAAgent +
  lambd :: real
  z :: "real list"

text \<open>\<open>np.zeros(features)\<close> raises on a negative size.\<close>

definition SARSALambdaAgent_init ::
  "Env \<Rightarrow> int \<Rightarrow> int \<Rightarrow> real \<Rightarrow> real \<Rightarrow> real \<Rightarrow> real \<Rightarrow> error + SARSALambdaAgent" where
  "SARSALambdaAgent_init env nlayers nfeatures g lr eps lam =
     bind_err (np_broadcast (-) (observation_space_high env) (observation_space_low env)) (\<lambda>scale.
     if nfeatures < 0 then Inl ValueError
     else Inr \<lparr>action_n = action_space_n env,
               obs_low = observation_space_low env,
               obs_scale = scale,
               encoder = TileCoder_init nlayers nfeatures,
               w = replicate (nat nfeatures) 0,
               gamma = g, learning_rate = lr, epsilon = eps,
               lambd = lam,
               z = replicate (nat nfeatures) 0\<rparr>)"

definition encode ::
  "(codeword \<Rightarrow> int) \<Rightarrow> 'a SARSAAgent_scheme \<Rightarrow> real list \<Rightarrow> pyval
     \<Rightarrow> error + (int list \<times> 'a SARSAAgent_scheme)" where
  "encode h ag observation action =
     bind_err (np_broadcast (-) observation (obs_low ag)) (\<lambda>diff.
     bind_err (np_broadcast np_divide diff (obs_scale ag)) (\<lambda>states.
     bind_err (TileCoder_call h (encoder ag) states [action]) (\<lambda>(feats, tc').
     Inr (feats, ag\<lparr>encoder := tc'\<rparr>))))"

definition get_q ::
  "(codeword \<Rightarrow> int) \<Rightarrow> 'a SARSAAgent_scheme \<Rightarrow> real list \<Rightarrow> pyval
     \<Rightarrow> error + (real \<times> 'a SARSAAgent_scheme)" where
  "get_q h ag observation action =
     bind_err (encode h ag observation action) (\<lambda>(feats, ag').
     bind_err (np_getitem (w ag') feats) (\<lambda>vs.
     Inr (sum_list vs, ag')))"

text \<open>The list comprehension \<open>[self.get_q(observation, action) for action in range(...)]\<close>.\<close>

fun get_qs ::
  "(codeword \<Rightarrow> int) \<Rightarrow> 'a SARSAAgent_scheme \<Rightarrow> real list \<Rightarrow> int list
     \<Rightarrow> error + (real list \<times> 'a SARSAAgent_scheme)" where
  "get_qs h ag observation [] = Inr ([], ag)"
| "get_qs h ag observation (a # rest) =
     bind_err (get_q h ag observation (PInt a)) (\<lambda>(q, ag').
     bind_err (get_qs h ag' observation rest) (\<lambda>(qs, ag'').
     Inr (q # qs, ag'')))"

text \<open>
  \<open>decide\<close> draws from the global random generator. The draws are arguments: \<open>rand\<close> is the
  value of \<open>np.random.rand()\<close>, in \<open>[0, 1)\<close>, and \<open>randint\<close> the value of
  \<open>np.random.randint(self.action_n)\<close>, which raises when there is no action to draw.
\<close>

definition decide ::
  "(codeword \<Rightarrow> int) \<Rightarrow> 'a SARSAAgent_scheme \<Rightarrow> real \<Rightarrow> int \<Rightarrow> real list
     \<Rightarrow> error + (int \<times> 'a SARSAAgent_scheme)" where
  "decide h ag rand randint observation =
     (if rand < epsilon ag then
        (if action_n ag \<le> 0 then Inl ValueError else Inr (randint, ag))
      else
        bind_err (get_qs h ag observation (map int [0..<nat (action_n ag)])) (\<lambda>(qs, ag').
        bind_err (np_argmax qs) (\<lambda>a.
        Inr (int a, ag'))))"

text \<open>
  \<open>SARSALambdaAgent.learn\<close>. An absent \<open>action_next\<close> is its default \<open>None\<close>. The first
  step is the body of \<open>if not done\<close>, which yields the target \<open>u\<close>.
\<close>

definition learn_target ::
  "(codeword \<Rightarrow> int) \<Rightarrow> SARSALambdaAgent \<Rightarrow> real list \<Rightarrow> pyval \<Rightarrow> real \<Rightarrow> real list \<Rightarrow> pyval
     \<Rightarrow> error + (real \<times> SARSALambdaAgent)" where
  "learn_target h ag observation action reward observation_next action_next =
     bind_err (get_q h ag observation_next action_next) (\<lambda>(q_next, ag1).
     let u = reward + gamma ag1 * q_next;
         ag2 = ag1\<lparr>z := map (\<lambda>x. x * (gamma ag1 * lambd ag1)) (z ag1)\<rparr>
     in
     bind_err (encode h ag2 observation action) (\<lambda>(feats, ag3).
     bind_err (np_setitem (z ag3) feats 1) (\<lambda>z'.
     Inr (u, ag3\<lparr>z := z'\<rparr>))))"

definition learn ::
  "(codeword \<Rightarrow> int) \<Rightarrow> SARSALambdaAgent \<Rightarrow> real list \<Rightarrow> pyval \<Rightarrow> real \<Rightarrow> real list \<Rightarrow> bool \<Rightarrow> pyval
     \<Rightarrow> error + SARSALambdaAgent" where
  "learn h ag observation action reward observation_next done action_next =
     bind_err (if \<not> done
               then learn_target h ag observation action reward observation_next action_next
               else Inr (reward, ag)) (\<lambda>(u, ag1).
     bind_err (get_q h ag1 observation action) (\<lambda>(q, ag2).
     let delta = u - q in
     bind_err (np_iadd (w ag2) (map (\<lambda>x. learning_rate ag2 * delta * x) (z ag2))) (\<lambda>w'.
     let ag3 = ag2\<lparr>w := w'\<rparr> in
     Inr (if done then ag3\<lparr>z := replicate (length (z ag3)) 0\<rparr> else ag3))))"

text \<open>
  A run of the agent: a sequence of calls of its two methods and of assignments to
  \<open>agent.epsilon\<close> (the test cell sets it to zero), stopped by the first exception.
\<close>

datatype call =
  Learn "real list" pyval real "real list" bool pyval
| Decide real int "real list"
| SetEpsilon real

fun step :: "(codeword \<Rightarrow> int) \<Rightarrow> SARSALambdaAgent \<Rightarrow> call \<Rightarrow> error + SARSALambdaAgent" where
  "step h ag (Learn obs a r obs' d a') = learn h ag obs a r obs' d a'"
| "step h ag (Decide rand randint obs) =
     bind_err (decide h ag rand randint obs) (\<lambda>(a, ag'). Inr ag')"
| "step h ag (SetEpsilon e) = Inr (ag\<lparr>epsilon := e\<rparr>)"

fun run :: "(codeword \<Rightarrow> int) \<Rightarrow> SARSALambdaAgent \<Rightarrow> call list \<Rightarrow> error + SARSALambdaAgent" where
  "run h ag [] = Inr ag"
| "run h ag (c # cs) = bind_err (step h ag c) (\<lambda>ag'. run h ag' cs)"

section \<open>Auxiliary notions for the statements\<close>

text \<open>
  The invariant of the codebook: the entries carry the indices \<open>0, 1, 2, \<dots>\<close> in insertion
  order, no codeword occurs twice, and there are at most \<open>features\<close> entries.
\<close>

definition codebook_ok :: "TileCoder \<Rightarrow> bool" where
  "codebook_ok tc \<longleftrightarrow>
     map snd (codebook tc) = map int [0..<length (codebook tc)] \<and>
     distinct (map fst (codebook tc)) \<and>
     int (length (codebook tc)) \<le> max 0 (features tc)"

text \<open>A sequence of calls of the tile coder, each with its floats and its discrete inputs.\<close>

fun tc_run ::
  "(codeword \<Rightarrow> int) \<Rightarrow> TileCoder \<Rightarrow> (npfloat list \<times> pyval list) list \<Rightarrow> error + TileCoder" where
  "tc_run h tc [] = Inr tc"
| "tc_run h tc (c # cs) =
     bind_err (TileCoder_call h tc (fst c) (snd c)) (\<lambda>(fs, tc'). tc_run h tc' cs)"

text \<open>
  How a later codebook relates to an earlier one: same configuration, the earlier entries
  unchanged at the front, and nothing added once the earlier codebook was at capacity.
\<close>

definition grows_to :: "TileCoder \<Rightarrow> TileCoder \<Rightarrow> bool" where
  "grows_to tc tc' \<longleftrightarrow>
     layers tc' = layers tc \<and> features tc' = features tc \<and>
     take (length (codebook tc)) (codebook tc') = codebook tc \<and>
     length (codebook tc) \<le> length (codebook tc') \<and>
     (features tc \<le> int (length (codebook tc)) \<longrightarrow> codebook tc' = codebook tc)"

text \<open>Inputs without \<open>inf\<close> and \<open>nan\<close>.\<close>

definition finite_floats :: "npfloat list \<Rightarrow> bool" where
  "finite_floats fs \<longleftrightarrow> (\<forall>f\<in>set fs. f \<noteq> FInf \<and> f \<noteq> FNaN)"

text \<open>The normalised observation \<open>(observation - self.obs_low) / self.obs_scale\<close> of \<open>encode\<close>.\<close>

definition states_of :: "'a SARSAAgent_scheme \<Rightarrow> real list \<Rightarrow> error + npfloat list" where
  "states_of ag observation =
     bind_err (np_broadcast (-) observation (obs_low ag)) (\<lambda>diff.
     np_broadcast np_divide diff (obs_scale ag))"

text \<open>
  The invariant of an agent: its encoder satisfies the codebook invariant and \<open>w\<close> has one
  entry for each of the \<open>features\<close> slots; for \<open>SARSALambdaAgent\<close>, \<open>z\<close> has the shape of \<open>w\<close>.
\<close>

definition agent_ok :: "'a SARSAAgent_scheme \<Rightarrow> bool" where
  "agent_ok ag \<longleftrightarrow>
     codebook_ok (encoder ag) \<and> 0 \<le> features (encoder ag) \<and>
     length (w ag) = nat (features (encoder ag))"

definition lambda_ok :: "SARSALambdaAgent \<Rightarrow> bool" where
  "lambda_ok ag \<longleftrightarrow> agent_ok ag \<and> length (z ag) = length (w ag)"

text \<open>An observation of the shape of the bounds, which have no empty range.\<close>

definition obs_ok :: "'a SARSAAgent_scheme \<Rightarrow> real list \<Rightarrow> bool" where
  "obs_ok ag observation \<longleftrightarrow>
     length observation = length (obs_low ag) \<and> length (obs_low ag) = length (obs_scale ag) \<and>
     0 \<notin> set (obs_scale ag)"

text \<open>
  An observation that \<open>encode\<close> can turn into codewords: the shapes fit and, when there is
  a layer to compute, no component is \<open>inf\<close> or \<open>nan\<close>.
\<close>

definition encodable :: "'a SARSAAgent_scheme \<Rightarrow> real list \<Rightarrow> bool" where
  "encodable ag observation \<longleftrightarrow>
     (case states_of ag observation of
        Inl e \<Rightarrow> False
      | Inr st \<Rightarrow> 0 < layers (encoder ag) \<longrightarrow> finite_floats st)"

section \<open>Worked configuration\<close>

text \<open>
  A small configuration for worked examples: one observation dimension with bounds \<open>[0, 1]\<close>,
  two actions, two layers, three features, and a hash that sends every codeword to 7. The agents
  \<open>example_agent1\<close> and \<open>example_agent2\<close> are the states after one and two calls of \<open>learn\<close>.
\<close>

definition example_hash :: "codeword \<Rightarrow> int" where
  "example_hash cw = 7"

definition example_env :: Env where
  "example_env = \<lparr>action_space_n = 2, observation_space_low = [0], observation_space_high = [1]\<rparr>"

definition example_agent :: SARSALambdaAgent where
  "example_agent =
     \<lparr>action_n = 2, obs_low = [0], obs_scale = [1], encoder = TileCoder_init 2 3,
      w = [0, 0, 0], gamma = 1, learning_rate = 1/2, epsilon = 0, lambd = 1/2, z = [0, 0, 0]\<rparr>"

definition example_agent1 :: SARSALambdaAgent where
  "example_agent1 =
     \<lparr>action_n = 2, obs_low = [0], obs_scale = [1],
      encoder = \<lparr>layers = 2, features = 3,
                 codebook = [([PInt 0, PInt 1, PInt 1], 0), ([PInt 1, PInt 1, PInt 1], 1),
                             ([PInt 0, PInt 1, PInt 0], 2)]\<rparr>,
      w = [0, -1/2, -1/2], gamma = 1, learning_rate = 1/2, epsilon = 0, lambd = 1/2,
      z = [0, 1, 1]\<rparr>"

definition example_agent2 :: SARSALambdaAgent where
  "example_agent2 = example_agent1\<lparr>w := [0, -3/4, -3/4], z := [0, 0, 0]\<rparr>"

definition example_agent_none :: SARSALambdaAgent where
  "example_agent_none =
     \<lparr>action_n = 2, obs_low = [0], obs_scale = [1],
      encoder = \<lparr>layers = 2, features = 3,
                 codebook = [([PInt 0, PInt 1, PNone], 0), ([PInt 1, PInt 1, PNone], 1),
                             ([PInt 0, PInt 1, PInt 0], 2)]\<rparr>,
      w = [0, -1/2, -1/2], gamma = 1, learning_rate = 1/2, epsilon = 0, lambd = 1/2,
      z = [0, 1, 1]\<rparr>"

definition example_agent_end :: SARSALambdaAgent where
  "example_agent_end =
     \<lparr>action_n = 2, obs_low = [0], obs_scale = [1],
      encoder = \<lparr>layers = 2, features = 3,
                 codebook = [([PInt 0, PInt 1, PInt 0], 0), ([PInt 1, PInt 1, PInt 0], 1)]\<rparr>,
      w = [0, 0, 0], gamma = 1, learning_rate = 1/2, epsilon = 0, lambd = 1/2,
      z = [0, 0, 0]\<rparr>"



definition example_encoder_none :: TileCoder where
  "example_encoder_none =
     \<lparr>layers = 2, features = 3,
      codebook = [([PInt 0, PInt 1, PNone], 0), ([PInt 1, PInt 1, PNone], 1)]\<rparr>"

section \<open>Properties of the tile coder\<close>

lemma bind_err_Inl [simp]: "bind_err (Inl e) f = Inl e"
  by (simp add: bind_err_def)

lemma bind_err_Inr [simp]: "bind_err (Inr x) f = f x"
  by (simp add: bind_err_def)

lemma bind_err_eq_Inr: "bind_err m f = Inr y \<longleftrightarrow> (\<exists>x. m = Inr x \<and> f x = Inr y)"
  by (cases m) simp_all

lemma TileCoder_init_ok: "codebook_ok (TileCoder_init l f)"
  by (simp add: codebook_ok_def TileCoder_init_def)

lemma get_feature_fields:
  "get_feature h tc cw = Inr (i, tc') \<Longrightarrow> layers tc' = layers tc \<and> features tc' = features tc"
  by (auto simp: get_feature_def Let_def split: option.splits if_splits)

lemma get_feature_ext:
  "get_feature h tc cw = Inr (i, tc') \<Longrightarrow>
     codebook tc' = codebook tc \<or>
     (map_of (codebook tc) cw = None \<and> int (length (codebook tc)) < features tc \<and>
      i = int (length (codebook tc)) \<and> codebook tc' = codebook tc @ [(cw, i)])"
  by (auto simp: get_feature_def Let_def split: option.splits if_splits)

lemma get_feature_ok:
  "codebook_ok tc \<Longrightarrow> get_feature h tc cw = Inr (i, tc') \<Longrightarrow> codebook_ok tc'"
  by (auto simp: get_feature_def Let_def codebook_ok_def map_of_eq_None_iff split: option.splits if_splits)

lemma codebook_ok_snd:
  "codebook_ok tc \<Longrightarrow> map_of (codebook tc) cw = Some i \<Longrightarrow> 0 \<le> i \<and> i < int (length (codebook tc))"
proof -
  assume ok: "codebook_ok tc" and m: "map_of (codebook tc) cw = Some i"
  from m have "(cw, i) \<in> set (codebook tc)" by (rule map_of_SomeD)
  then have "i \<in> set (map snd (codebook tc))" by force
  with ok show ?thesis by (auto simp: codebook_ok_def)
qed

lemma get_feature_range:
  assumes ok: "codebook_ok tc" and f: "0 \<le> features tc"
    and g: "get_feature h tc cw = Inr (i, tc')"
  shows "0 \<le> i \<and> i < features tc"
proof (cases "map_of (codebook tc) cw")
  case (Some j)
  with g have "i = j" by (simp add: get_feature_def)
  with codebook_ok_snd[OF ok Some] ok f show ?thesis
    by (simp add: codebook_ok_def)
next
  case None
  with g f show ?thesis
    by (auto simp: get_feature_def Let_def split: if_splits)
qed

lemma get_feature_total:
  "features tc \<noteq> 0 \<Longrightarrow> \<exists>i tc'. get_feature h tc cw = Inr (i, tc')"
  by (auto simp: get_feature_def Let_def split: option.splits)

lemma grows_to_refl: "grows_to tc tc"
  by (simp add: grows_to_def)

lemma grows_to_trans:
  assumes ab: "grows_to a b" and bc: "grows_to b c"
  shows "grows_to a c"
proof -
  have "take (length (codebook a)) (codebook c)
          = take (length (codebook a)) (take (length (codebook b)) (codebook c))"
    using ab by (simp add: grows_to_def min.absorb1)
  also have "\<dots> = codebook a" using ab bc by (simp add: grows_to_def)
  finally have t: "take (length (codebook a)) (codebook c) = codebook a" .
  have "features a \<le> int (length (codebook a)) \<longrightarrow> codebook c = codebook a"
    using ab bc by (auto simp: grows_to_def)
  with t ab bc show ?thesis by (simp add: grows_to_def)
qed

lemma get_feature_grows: "get_feature h tc cw = Inr (i, tc') \<Longrightarrow> grows_to tc tc'"
  by (auto simp: get_feature_def Let_def grows_to_def split: option.splits if_splits)

lemma call_loop_grows:
  "call_loop h sf ints dm ls tc acc = Inr (fs, tc') \<Longrightarrow> grows_to tc tc'"
proof (induction ls arbitrary: tc acc)
  case Nil then show ?case by (simp add: grows_to_refl)
next
  case (Cons l ls)
  then show ?case
    by (auto simp: bind_err_eq_Inr intro: grows_to_trans get_feature_grows)
qed

lemma call_loop_ok:
  "codebook_ok tc \<Longrightarrow> call_loop h sf ints dm ls tc acc = Inr (fs, tc') \<Longrightarrow> codebook_ok tc'"
proof (induction ls arbitrary: tc acc)
  case Nil then show ?case by simp
next
  case (Cons l ls)
  then show ?case
    by (auto simp: bind_err_eq_Inr intro: get_feature_ok)
qed

lemma call_loop_length:
  "call_loop h sf ints dm ls tc acc = Inr (fs, tc') \<Longrightarrow> length fs = length acc + length ls"
proof (induction ls arbitrary: tc acc)
  case Nil then show ?case by simp
next
  case (Cons l ls)
  then show ?case
    by (fastforce simp: bind_err_eq_Inr)
qed

lemma call_loop_range:
  assumes "codebook_ok tc" "0 \<le> features tc"
    and "call_loop h sf ints dm ls tc acc = Inr (fs, tc')"
    and "\<forall>f\<in>set acc. 0 \<le> f \<and> f < features tc"
  shows "\<forall>f\<in>set fs. 0 \<le> f \<and> f < features tc"
  using assms
proof (induction ls arbitrary: tc acc)
  case Nil then show ?case by simp
next
  case (Cons l ls)
  from Cons.prems(3) obtain cw i tc1 where
    g: "get_feature h tc cw = Inr (i, tc1)" and
    r: "call_loop h sf ints dm ls tc1 (acc @ [i]) = Inr (fs, tc')"
    by (auto simp: bind_err_eq_Inr)
  from g Cons.prems have i: "0 \<le> i \<and> i < features tc" by (auto dest: get_feature_range)
  from g have F: "features tc1 = features tc" by (auto dest: get_feature_fields)
  from g Cons.prems have ok: "codebook_ok tc1" by (auto intro: get_feature_ok)
  have "\<forall>f\<in>set fs. 0 \<le> f \<and> f < features tc1"
    using ok r i F Cons.prems by (intro Cons.IH[of tc1 "acc @ [i]"]) auto
  with F show ?case by simp
qed

lemma mapM_err_total:
  "(\<And>x. x \<in> set xs \<Longrightarrow> \<exists>y. f x = Inr y) \<Longrightarrow> \<exists>ys. mapM_err f xs = Inr ys"
proof (induction xs)
  case Nil then show ?case by simp
next
  case (Cons x xs)
  then obtain y ys where "f x = Inr y" "mapM_err f xs = Inr ys" by fastforce
  then show ?case by simp
qed

lemma finite_floats_Fin: "finite_floats (map Fin xs)"
  by (auto simp: finite_floats_def)

lemma make_codeword_total:
  assumes "finite_floats sf" "layers tc \<noteq> 0"
  shows "\<exists>cw. make_codeword tc sf ints dm l = Inr cw"
proof -
  have "\<exists>cs. mapM_err (tile_coord (layers tc) dm l) (enumerate 0 sf) = Inr cs"
  proof (rule mapM_err_total)
    fix p assume "p \<in> set (enumerate 0 sf)"
    then have "snd p \<in> snd ` set (enumerate 0 sf)" by (rule imageI)
    then have "snd p \<in> set sf" by (simp only: set_map[symmetric] map_snd_enumerate)
    then obtain i f where p: "p = (i, f)" and "f \<in> set sf"
      by (cases p) auto
    with assms obtain y where "f = Fin y" by (cases f) (auto simp: finite_floats_def)
    with p assms show "\<exists>y. tile_coord (layers tc) dm l p = Inr y"
      by (simp add: tile_coord_def)
  qed
  then show ?thesis by (auto simp: make_codeword_def)
qed

lemma call_loop_total:
  assumes "finite_floats sf" "layers tc \<noteq> 0" "features tc \<noteq> 0"
  shows "\<exists>fs tc'. call_loop h sf ints dm ls tc acc = Inr (fs, tc')"
  using assms
proof (induction ls arbitrary: tc acc)
  case Nil then show ?case by simp
next
  case (Cons l ls)
  from Cons.prems obtain cw where mk: "make_codeword tc sf ints dm l = Inr cw"
    using make_codeword_total by blast
  from Cons.prems obtain i tc1 where g: "get_feature h tc cw = Inr (i, tc1)"
    using get_feature_total by blast
  from g have "layers tc1 = layers tc" "features tc1 = features tc"
    by (auto dest: get_feature_fields)
  with Cons.prems have "\<exists>fs tc'. call_loop h sf ints dm ls tc1 (acc @ [i]) = Inr (fs, tc')"
    by (intro Cons.IH) simp_all
  with mk g show ?case by simp
qed

lemma scaled_finite:
  "finite_floats fl \<Longrightarrow> finite_floats (map (\<lambda>f. fmul_int (fmul_int f L) L) fl)"
proof -
  assume a: "finite_floats fl"
  have "\<And>f. f \<in> set fl \<Longrightarrow> \<exists>y. fmul_int (fmul_int f L) L = Fin y"
  proof -
    fix f assume "f \<in> set fl"
    with a show "\<exists>y. fmul_int (fmul_int f L) L = Fin y"
      by (cases f) (auto simp: finite_floats_def)
  qed
  then show ?thesis by (fastforce simp: finite_floats_def)
qed

lemma TileCoder_call_total:
  assumes "finite_floats fl" "features tc \<noteq> 0"
  shows "\<exists>fs tc'. TileCoder_call h tc fl ints = Inr (fs, tc')"
proof (cases "0 < layers tc")
  case True
  with assms show ?thesis
    unfolding TileCoder_call_def Let_def
    by (intro call_loop_total scaled_finite) simp_all
next
  case False
  then show ?thesis by (simp add: TileCoder_call_def)
qed

lemma TileCoder_call_grows: "TileCoder_call h tc fl ints = Inr (fs, tc') \<Longrightarrow> grows_to tc tc'"
  unfolding TileCoder_call_def Let_def by (rule call_loop_grows)

lemma TileCoder_call_ok:
  "codebook_ok tc \<Longrightarrow> TileCoder_call h tc fl ints = Inr (fs, tc') \<Longrightarrow> codebook_ok tc'"
  unfolding TileCoder_call_def Let_def by (rule call_loop_ok)

lemma TileCoder_call_length:
  "TileCoder_call h tc fl ints = Inr (fs, tc') \<Longrightarrow> length fs = nat (layers tc)"
  unfolding TileCoder_call_def Let_def by (drule call_loop_length) simp

lemma TileCoder_call_range:
  "codebook_ok tc \<Longrightarrow> 0 \<le> features tc \<Longrightarrow> TileCoder_call h tc fl ints = Inr (fs, tc') \<Longrightarrow>
     \<forall>f\<in>set fs. 0 \<le> f \<and> f < features tc"
  unfolding TileCoder_call_def Let_def by (erule (2) call_loop_range) simp

lemma tc_run_grows: "tc_run h tc cs = Inr tc' \<Longrightarrow> grows_to tc tc'"
proof (induction cs arbitrary: tc)
  case Nil then show ?case by (simp add: grows_to_refl)
next
  case (Cons c cs)
  then show ?case
    by (auto simp: bind_err_eq_Inr intro: grows_to_trans TileCoder_call_grows)
qed

lemma tc_run_ok: "codebook_ok tc \<Longrightarrow> tc_run h tc cs = Inr tc' \<Longrightarrow> codebook_ok tc'"
proof (induction cs arbitrary: tc)
  case Nil then show ?case by simp
next
  case (Cons c cs)
  then show ?case
    by (auto simp: bind_err_eq_Inr intro: TileCoder_call_ok)
qed

lemma grows_to_lookup:
  assumes g: "grows_to tc tc'" and ok: "codebook_ok tc'"
    and m: "map_of (codebook tc) cw = Some i"
  shows "map_of (codebook tc') cw = Some i"
proof -
  from m have "(cw, i) \<in> set (codebook tc)" by (rule map_of_SomeD)
  moreover from g have "set (codebook tc) \<subseteq> set (codebook tc')"
    by (metis grows_to_def set_take_subset)
  ultimately have "(cw, i) \<in> set (codebook tc')" by blast
  with ok show ?thesis by (simp add: codebook_ok_def)
qed

text \<open>
  Claim C4. In every state of the tile coder that a sequence of calls reaches from its
  construction with \<open>features \<ge> 1\<close>, a call on finite inputs returns a list of exactly
  \<open>layers\<close> indices, each of them in \<open>[0, features)\<close>, whether it comes from the codebook
  or from the hash of the codeword.
\<close>

theorem TileCoder_call_indices:
  assumes "tc_run h (TileCoder_init L F) calls = Inr tc" and "1 \<le> F"
  shows "\<exists>fs tc'. TileCoder_call h tc (map Fin xs) ints = Inr (fs, tc') \<and>
           length fs = nat L \<and> (\<forall>f\<in>set fs. 0 \<le> f \<and> f < F)"
proof -
  from assms(1) have ok: "codebook_ok tc" by (rule tc_run_ok[OF TileCoder_init_ok])
  from assms(1) have "grows_to (TileCoder_init L F) tc" by (rule tc_run_grows)
  then have fld: "layers tc = L" "features tc = F" by (simp_all add: grows_to_def TileCoder_init_def)
  with assms(2) obtain fs tc' where c: "TileCoder_call h tc (map Fin xs) ints = Inr (fs, tc')"
    using TileCoder_call_total[OF finite_floats_Fin, of tc h xs ints] by auto
  from c fld have "length fs = nat L" by (auto dest: TileCoder_call_length)
  moreover from ok c fld assms(2) have "\<forall>f\<in>set fs. 0 \<le> f \<and> f < F"
    using TileCoder_call_range[of tc h "map Fin xs" ints fs tc'] by simp
  ultimately show ?thesis using c by blast
qed

theorem TileCoder_call_indices_witness:
  "tc_run (\<lambda>_. 7) (TileCoder_init 2 3) [([Fin (1/2)], [PInt 0])] =
     Inr \<lparr>layers = 2, features = 3,
          codebook = [([PInt 0, PInt 1, PInt 0], 0), ([PInt 1, PInt 1, PInt 0], 1)]\<rparr> \<and>
   (1::int) \<le> 3 \<and>
   TileCoder_call (\<lambda>_. 7)
     \<lparr>layers = 2, features = 3,
      codebook = [([PInt 0, PInt 1, PInt 0], 0), ([PInt 1, PInt 1, PInt 0], 1)]\<rparr>
     (map Fin [1]) [PInt 0] =
     Inr ([2, 1], \<lparr>layers = 2, features = 3,
          codebook = [([PInt 0, PInt 1, PInt 0], 0), ([PInt 1, PInt 1, PInt 0], 1),
                      ([PInt 0, PInt 2, PInt 0], 2)]\<rparr>)"
  using TileCoder_call_indices [of "\<lambda>_. 7" 2 3 "[([Fin (1/2)], [PInt 0])]"
      "\<lparr>layers = 2, features = 3,
        codebook = [([PInt 0, PInt 1, PInt 0], 0), ([PInt 1, PInt 1, PInt 0], 1)]\<rparr>"
      "[1]" "[PInt 0]"]
  by (simp add: TileCoder_call_def tile_coord_def make_codeword_def get_feature_def
      TileCoder_init_def upt_rec)

text \<open>
  Claim C5. Let \<open>tc1\<close> be a state that calls reach from the construction of a tile coder with
  \<open>features \<ge> 0\<close>, and \<open>tc2\<close> a state that further calls reach from \<open>tc1\<close>. The codebook of
  \<open>tc2\<close> has at most \<open>features\<close> entries and at least as many as that of \<open>tc1\<close>; it is that
  of \<open>tc1\<close> when that was at capacity; every codeword of \<open>tc1\<close> keeps its index; and the
  entries are in insertion order with the indices \<open>0, 1, 2, \<dots>\<close>, each the size of the table
  when its codeword was inserted.
\<close>

theorem codebook_invariants:
  assumes "0 \<le> F" and "tc_run h (TileCoder_init L F) cs1 = Inr tc1"
    and "tc_run h tc1 cs2 = Inr tc2"
  shows "int (length (codebook tc2)) \<le> F \<and>
         length (codebook tc1) \<le> length (codebook tc2) \<and>
         (F \<le> int (length (codebook tc1)) \<longrightarrow> codebook tc2 = codebook tc1) \<and>
         (\<forall>cw i. map_of (codebook tc1) cw = Some i \<longrightarrow> map_of (codebook tc2) cw = Some i) \<and>
         take (length (codebook tc1)) (codebook tc2) = codebook tc1 \<and>
         map snd (codebook tc2) = map int [0..<length (codebook tc2)] \<and>
         distinct (map fst (codebook tc2))"
proof -
  from assms(2) have ok1: "codebook_ok tc1" by (rule tc_run_ok[OF TileCoder_init_ok])
  from ok1 assms(3) have ok2: "codebook_ok tc2" by (rule tc_run_ok)
  from assms(2) have "grows_to (TileCoder_init L F) tc1" by (rule tc_run_grows)
  then have fld: "features tc1 = F" by (simp add: grows_to_def TileCoder_init_def)
  from assms(3) have g: "grows_to tc1 tc2" by (rule tc_run_grows)
  with fld have F2: "features tc2 = F" by (simp add: grows_to_def)
  from ok2 F2 assms(1) have "int (length (codebook tc2)) \<le> F" by (simp add: codebook_ok_def)
  moreover from g fld have "length (codebook tc1) \<le> length (codebook tc2)"
    "F \<le> int (length (codebook tc1)) \<longrightarrow> codebook tc2 = codebook tc1"
    "take (length (codebook tc1)) (codebook tc2) = codebook tc1"
    by (simp_all add: grows_to_def)
  moreover have "\<forall>cw i. map_of (codebook tc1) cw = Some i \<longrightarrow> map_of (codebook tc2) cw = Some i"
    using grows_to_lookup[OF g ok2] by blast
  moreover from ok2 have "map snd (codebook tc2) = map int [0..<length (codebook tc2)]"
    "distinct (map fst (codebook tc2))" by (simp_all add: codebook_ok_def)
  ultimately show ?thesis by blast
qed

theorem codebook_invariants_witness:
  "(0::int) \<le> 3 \<and>
   tc_run (\<lambda>_. 7) (TileCoder_init 2 3) [([Fin (1/2)], [PInt 0])] =
     Inr \<lparr>layers = 2, features = 3,
          codebook = [([PInt 0, PInt 1, PInt 0], 0), ([PInt 1, PInt 1, PInt 0], 1)]\<rparr> \<and>
   tc_run (\<lambda>_. 7)
     \<lparr>layers = 2, features = 3,
      codebook = [([PInt 0, PInt 1, PInt 0], 0), ([PInt 1, PInt 1, PInt 0], 1)]\<rparr>
     [([Fin 1], [PInt 0]), ([Fin 0], [PInt 1])] =
     Inr \<lparr>layers = 2, features = 3,
          codebook = [([PInt 0, PInt 1, PInt 0], 0), ([PInt 1, PInt 1, PInt 0], 1),
                      ([PInt 0, PInt 2, PInt 0], 2)]\<rparr>"
  using codebook_invariants [of 3 "\<lambda>_. 7" 2 "[([Fin (1/2)], [PInt 0])]"
      "\<lparr>layers = 2, features = 3,
        codebook = [([PInt 0, PInt 1, PInt 0], 0), ([PInt 1, PInt 1, PInt 0], 1)]\<rparr>"
      "[([Fin 1], [PInt 0]), ([Fin 0], [PInt 1])]"
      "\<lparr>layers = 2, features = 3,
        codebook = [([PInt 0, PInt 1, PInt 0], 0), ([PInt 1, PInt 1, PInt 0], 1),
                    ([PInt 0, PInt 2, PInt 0], 2)]\<rparr>"]
  by (simp add: TileCoder_call_def tile_coord_def make_codeword_def get_feature_def
      TileCoder_init_def upt_rec)

section \<open>Properties of the agents\<close>

lemma encode_Inr:
  "encode h ag obs a = Inr (fs, ag') \<longleftrightarrow>
     (\<exists>st tc'. states_of ag obs = Inr st \<and> TileCoder_call h (encoder ag) st [a] = Inr (fs, tc') \<and>
        ag' = ag\<lparr>encoder := tc'\<rparr>)"
  by (auto simp: encode_def states_of_def bind_err_eq_Inr)

lemma encode_frame:
  assumes "encode h ag obs a = Inr (fs, ag')"
  shows "w ag' = w ag" "gamma ag' = gamma ag" "learning_rate ag' = learning_rate ag"
    "epsilon ag' = epsilon ag" "action_n ag' = action_n ag" "obs_low ag' = obs_low ag"
    "obs_scale ag' = obs_scale ag" "SARSAAgent.more ag' = SARSAAgent.more ag"
    "grows_to (encoder ag) (encoder ag')"
  using assms by (auto simp: encode_Inr dest: TileCoder_call_grows)

lemma get_q_Inr:
  "get_q h ag obs a = Inr (q, ag') \<longleftrightarrow>
     (\<exists>fs vs. encode h ag obs a = Inr (fs, ag') \<and> np_getitem (w ag) fs = Inr vs \<and> q = sum_list vs)"
  by (auto simp: get_q_def bind_err_eq_Inr encode_frame)

lemma get_q_frame:
  assumes "get_q h ag obs a = Inr (q, ag')"
  shows "w ag' = w ag" "gamma ag' = gamma ag" "learning_rate ag' = learning_rate ag"
    "epsilon ag' = epsilon ag" "action_n ag' = action_n ag" "obs_low ag' = obs_low ag"
    "obs_scale ag' = obs_scale ag" "SARSAAgent.more ag' = SARSAAgent.more ag"
    "grows_to (encoder ag) (encoder ag')"
  using assms by (auto simp: get_q_Inr encode_frame)

lemma lambda_more:
  "SARSAAgent.more ag' = SARSAAgent.more (ag::SARSALambdaAgent) \<Longrightarrow> z ag' = z ag \<and> lambd ag' = lambd ag"
  by (cases ag; cases ag') simp

lemma np_index_Inr:
  "np_index n i = Inr j \<Longrightarrow> j < n \<and> (0 \<le> i \<longrightarrow> j = nat i)"
  by (auto simp: np_index_def split: if_splits)

lemma np_index_nonneg: "0 \<le> i \<Longrightarrow> i < int n \<Longrightarrow> np_index n i = Inr (nat i)"
  by (simp add: np_index_def)

lemma np_setitem_length: "np_setitem xs idxs v = Inr ys \<Longrightarrow> length ys = length xs"
  by (induction idxs arbitrary: xs) (auto simp: bind_err_eq_Inr)

lemma np_setitem_set: "np_setitem xs idxs v = Inr ys \<Longrightarrow> set ys \<subseteq> insert v (set xs)"
proof (induction idxs arbitrary: xs)
  case Nil then show ?case by auto
next
  case (Cons i idxs)
  then obtain j where "np_setitem (xs[j := v]) idxs v = Inr ys"
    by (auto simp: bind_err_eq_Inr)
  with Cons.IH have "set ys \<subseteq> insert v (set (xs[j := v]))" by blast
  also have "\<dots> \<subseteq> insert v (set xs)"
    using set_update_subset_insert[of xs j v] by auto
  finally show ?case .
qed

lemma np_setitem_nth:
  assumes "np_setitem xs idxs v = Inr ys" "\<forall>i\<in>set idxs. 0 \<le> i" "j < length xs"
  shows "ys ! j = (if int j \<in> set idxs then v else xs ! j)"
  using assms
proof (induction idxs arbitrary: xs)
  case Nil then show ?case by simp
next
  case (Cons i idxs)
  from Cons.prems obtain k where k: "np_index (length xs) i = Inr k"
    and r: "np_setitem (xs[k := v]) idxs v = Inr ys"
    by (auto simp: bind_err_eq_Inr)
  from k Cons.prems have ki: "k = nat i" "k < length xs" "0 \<le> i" by (auto dest: np_index_Inr)
  have "ys ! j = (if int j \<in> set idxs then v else (xs[k := v]) ! j)"
    using r Cons.prems by (intro Cons.IH) simp_all
  with ki Cons.prems(3) show ?case by (auto simp: nth_list_update)
qed

lemma np_setitem_total:
  "\<forall>i\<in>set idxs. 0 \<le> i \<and> i < int (length xs) \<Longrightarrow> \<exists>ys. np_setitem xs idxs v = Inr ys"
  by (induction idxs arbitrary: xs) (auto simp: np_index_nonneg)

lemma np_getitem_total:
  "\<forall>i\<in>set idxs. 0 \<le> i \<and> i < int (length xs) \<Longrightarrow> \<exists>vs. np_getitem xs idxs = Inr vs"
  unfolding np_getitem_def
  by (rule mapM_err_total) (auto simp: np_index_nonneg)

lemma np_iadd_length: "np_iadd xs ys = Inr zs \<Longrightarrow> length zs = length xs"
  by (auto simp: np_iadd_def split: if_splits)

lemma np_iadd_nth:
  "np_iadd xs ys = Inr zs \<Longrightarrow> length ys = length xs \<Longrightarrow> i < length xs \<Longrightarrow> zs ! i = xs ! i + ys ! i"
  by (auto simp: np_iadd_def split: if_splits)

lemma encode_z_frame:
  fixes ag :: SARSALambdaAgent
  assumes "encode h ag obs a = Inr (fs, ag')"
  shows "z ag' = z ag" "lambd ag' = lambd ag"
  using lambda_more[OF encode_frame(8)[OF assms]] by blast+

lemma get_q_z_frame:
  fixes ag :: SARSALambdaAgent
  assumes "get_q h ag obs a = Inr (q, ag')"
  shows "z ag' = z ag" "lambd ag' = lambd ag"
  using lambda_more[OF get_q_frame(8)[OF assms]] by blast+

lemma learn_target_Inr:
  "learn_target h ag obs a r obs' a' = Inr (u, ag3) \<longleftrightarrow>
     (\<exists>q' ag1 fs ag2 z'.
        get_q h ag obs' a' = Inr (q', ag1) \<and> u = r + gamma ag * q' \<and>
        encode h (ag1\<lparr>z := map (\<lambda>x. x * (gamma ag * lambd ag)) (z ag)\<rparr>) obs a = Inr (fs, ag2) \<and>
        np_setitem (map (\<lambda>x. x * (gamma ag * lambd ag)) (z ag)) fs 1 = Inr z' \<and>
        ag3 = ag2\<lparr>z := z'\<rparr>)"
  (is "?l \<longleftrightarrow> ?r")
proof
  assume ?l
  then obtain q' ag1 fs ag2 z' where
    q: "get_q h ag obs' a' = Inr (q', ag1)" and u: "u = r + gamma ag1 * q'" and
    e: "encode h (ag1\<lparr>z := map (\<lambda>x. x * (gamma ag1 * lambd ag1)) (z ag1)\<rparr>) obs a = Inr (fs, ag2)" and
    s: "np_setitem (z ag2) fs 1 = Inr z'" and a3: "ag3 = ag2\<lparr>z := z'\<rparr>"
    unfolding learn_target_def Let_def by (auto simp: bind_err_eq_Inr)
  note f = get_q_frame[OF q] get_q_z_frame[OF q]
  from e have "z ag2 = map (\<lambda>x. x * (gamma ag1 * lambd ag1)) (z ag1)"
    by (simp add: encode_z_frame)
  with q u e s a3 f show ?r by auto
next
  assume ?r
  then obtain q' ag1 fs ag2 z' where
    q: "get_q h ag obs' a' = Inr (q', ag1)" and u: "u = r + gamma ag * q'" and
    e: "encode h (ag1\<lparr>z := map (\<lambda>x. x * (gamma ag * lambd ag)) (z ag)\<rparr>) obs a = Inr (fs, ag2)" and
    s: "np_setitem (map (\<lambda>x. x * (gamma ag * lambd ag)) (z ag)) fs 1 = Inr z'" and a3: "ag3 = ag2\<lparr>z := z'\<rparr>"
    by blast
  note f = get_q_frame[OF q] get_q_z_frame[OF q]
  from e have "z ag2 = map (\<lambda>x. x * (gamma ag * lambd ag)) (z ag)"
    by (simp add: encode_z_frame)
  with q u e s a3 f show ?l
    unfolding learn_target_def Let_def by (simp add: bind_err_eq_Inr)
qed

lemma learn_Inr:
  "learn h ag obs a r obs' d a' = Inr ag' \<longleftrightarrow>
     (\<exists>u ag1 q ag2 w'.
        (if d then u = r \<and> ag1 = ag else learn_target h ag obs a r obs' a' = Inr (u, ag1)) \<and>
        get_q h ag1 obs a = Inr (q, ag2) \<and>
        np_iadd (w ag1) (map (\<lambda>x. learning_rate ag1 * (u - q) * x) (z ag1)) = Inr w' \<and>
        ag' = (if d then ag2\<lparr>w := w', z := replicate (length (z ag1)) 0\<rparr> else ag2\<lparr>w := w'\<rparr>))"
  (is "?l \<longleftrightarrow> ?r")
proof
  assume ?l
  then obtain u ag1 q ag2 w' where
    t: "(if \<not> d then learn_target h ag obs a r obs' a' else Inr (r, ag)) = Inr (u, ag1)" and
    q: "get_q h ag1 obs a = Inr (q, ag2)" and
    i: "np_iadd (w ag2) (map (\<lambda>x. learning_rate ag2 * (u - q) * x) (z ag2)) = Inr w'" and
    a: "ag' = (if d then ag2\<lparr>w := w', z := replicate (length (z ag2)) 0\<rparr> else ag2\<lparr>w := w'\<rparr>)"
    unfolding learn_def Let_def by (auto simp: bind_err_eq_Inr)
  note f = get_q_frame[OF q] get_q_z_frame[OF q]
  from t have "if d then u = r \<and> ag1 = ag else learn_target h ag obs a r obs' a' = Inr (u, ag1)"
    by (auto split: if_splits)
  with q i a f show ?r by auto
next
  assume ?r
  then obtain u ag1 q ag2 w' where
    t: "if d then u = r \<and> ag1 = ag else learn_target h ag obs a r obs' a' = Inr (u, ag1)" and
    q: "get_q h ag1 obs a = Inr (q, ag2)" and
    i: "np_iadd (w ag1) (map (\<lambda>x. learning_rate ag1 * (u - q) * x) (z ag1)) = Inr w'" and
    a: "ag' = (if d then ag2\<lparr>w := w', z := replicate (length (z ag1)) 0\<rparr> else ag2\<lparr>w := w'\<rparr>)"
    by blast
  note f = get_q_frame[OF q] get_q_z_frame[OF q]
  from t have "(if \<not> d then learn_target h ag obs a r obs' a' else Inr (r, ag)) = Inr (u, ag1)"
    by (auto split: if_splits)
  with q i a f show ?l
    unfolding learn_def Let_def by (auto simp: bind_err_eq_Inr)
qed

lemma encode_upd:
  "encode h ag obs a = Inr (fs, ag') \<Longrightarrow> \<exists>tc'. ag' = ag\<lparr>encoder := tc'\<rparr> \<and> grows_to (encoder ag) tc'"
  by (auto simp: encode_Inr dest: TileCoder_call_grows)

lemma get_q_upd:
  "get_q h ag obs a = Inr (q, ag') \<Longrightarrow> \<exists>tc'. ag' = ag\<lparr>encoder := tc'\<rparr> \<and> grows_to (encoder ag) tc'"
  by (auto simp: get_q_Inr dest: encode_upd)

lemma states_of_z [simp]: "states_of (ag\<lparr>z := zz\<rparr>) obs = states_of ag obs"
  by (simp add: states_of_def)

lemma encode_z:
  "encode h (ag\<lparr>z := zz\<rparr>) obs a = Inr (fs, ag') \<longleftrightarrow>
     (\<exists>ag''. encode h ag obs a = Inr (fs, ag'') \<and> ag' = ag''\<lparr>z := zz\<rparr>)"
  by (auto simp: encode_Inr)

lemma get_q_z:
  "get_q h (ag\<lparr>z := zz\<rparr>) obs a = Inr (q, ag') \<longleftrightarrow>
     (\<exists>ag''. get_q h ag obs a = Inr (q, ag'') \<and> ag' = ag''\<lparr>z := zz\<rparr>)"
  by (auto simp: get_q_Inr encode_z)

lemma encode_ok:
  assumes "agent_ok ag" "encode h ag obs a = Inr (fs, ag')"
  shows "agent_ok ag'" "\<forall>f\<in>set fs. 0 \<le> f \<and> f < int (length (w ag))"
proof -
  from assms(2) obtain st tc' where c: "TileCoder_call h (encoder ag) st [a] = Inr (fs, tc')"
    and a: "ag' = ag\<lparr>encoder := tc'\<rparr>" by (auto simp: encode_Inr)
  from c have g: "grows_to (encoder ag) tc'" by (rule TileCoder_call_grows)
  from assms(1) c have "codebook_ok tc'" by (auto simp: agent_ok_def intro: TileCoder_call_ok)
  with assms(1) a g show "agent_ok ag'" by (simp add: agent_ok_def grows_to_def)
  from assms(1) c have "\<forall>f\<in>set fs. 0 \<le> f \<and> f < features (encoder ag)"
    by (auto simp: agent_ok_def dest: TileCoder_call_range)
  with assms(1) show "\<forall>f\<in>set fs. 0 \<le> f \<and> f < int (length (w ag))"
    by (auto simp: agent_ok_def)
qed

lemma get_q_ok: "agent_ok ag \<Longrightarrow> get_q h ag obs a = Inr (q, ag') \<Longrightarrow> agent_ok ag'"
  by (auto simp: get_q_Inr dest: encode_ok)

lemma agent_ok_z [simp]: "agent_ok (ag\<lparr>z := zz\<rparr>) = agent_ok ag"
  by (simp add: agent_ok_def)

lemma agent_ok_w: "length w' = length (w ag) \<Longrightarrow> agent_ok (ag\<lparr>w := w'\<rparr>) = agent_ok ag"
  by (simp add: agent_ok_def)

lemma agent_ok_epsilon [simp]: "agent_ok (ag\<lparr>epsilon := e\<rparr>) = agent_ok ag"
  by (simp add: agent_ok_def)

text \<open>What one successful call of learn does, field by field.\<close>

lemma learn_cases:
  assumes "learn h ag obs a r obs' d a' = Inr ag'"
  obtains (at_end) q tc w' where
      "d" "get_q h ag obs a = Inr (q, ag\<lparr>encoder := tc\<rparr>)"
      "np_iadd (w ag) (map (\<lambda>x. learning_rate ag * (r - q) * x) (z ag)) = Inr w'"
      "ag' = ag\<lparr>encoder := tc, w := w', z := replicate (length (z ag)) 0\<rparr>"
  | (mid_episode) q' tc1 fs tc2 z' q tc3 w' where
      "\<not> d" "get_q h ag obs' a' = Inr (q', ag\<lparr>encoder := tc1\<rparr>)"
      "encode h (ag\<lparr>encoder := tc1\<rparr>) obs a = Inr (fs, ag\<lparr>encoder := tc2\<rparr>)"
      "np_setitem (map (\<lambda>x. x * (gamma ag * lambd ag)) (z ag)) fs 1 = Inr z'"
      "get_q h (ag\<lparr>encoder := tc2, z := z'\<rparr>) obs a = Inr (q, ag\<lparr>encoder := tc3, z := z'\<rparr>)"
      "np_iadd (w ag) (map (\<lambda>x. learning_rate ag * (r + gamma ag * q' - q) * x) z') = Inr w'"
      "ag' = ag\<lparr>encoder := tc3, w := w', z := z'\<rparr>"
proof (cases d)
  case True
  with assms obtain q ag2 w' where
    q: "get_q h ag obs a = Inr (q, ag2)" and
    i: "np_iadd (w ag) (map (\<lambda>x. learning_rate ag * (r - q) * x) (z ag)) = Inr w'" and
    a: "ag' = ag2\<lparr>w := w', z := replicate (length (z ag)) 0\<rparr>"
    by (auto simp: learn_Inr)
  from get_q_upd[OF q] obtain tc where "ag2 = ag\<lparr>encoder := tc\<rparr>" by blast
  with True q i a show ?thesis by (intro at_end[of q tc w']) simp_all
next
  case False
  with assms obtain u ag1 q ag2 w' where
    t: "learn_target h ag obs a r obs' a' = Inr (u, ag1)" and
    q: "get_q h ag1 obs a = Inr (q, ag2)" and
    i: "np_iadd (w ag1) (map (\<lambda>x. learning_rate ag1 * (u - q) * x) (z ag1)) = Inr w'" and
    a: "ag' = ag2\<lparr>w := w'\<rparr>"
    by (auto simp: learn_Inr)
  from t obtain q' ag0 fs agb z' where
    q0: "get_q h ag obs' a' = Inr (q', ag0)" and u: "u = r + gamma ag * q'" and
    e: "encode h (ag0\<lparr>z := map (\<lambda>x. x * (gamma ag * lambd ag)) (z ag)\<rparr>) obs a = Inr (fs, agb)" and
    s: "np_setitem (map (\<lambda>x. x * (gamma ag * lambd ag)) (z ag)) fs 1 = Inr z'" and
    a1: "ag1 = agb\<lparr>z := z'\<rparr>"
    by (auto simp: learn_target_Inr)
  from get_q_upd[OF q0] obtain tc1 where ag0: "ag0 = ag\<lparr>encoder := tc1\<rparr>" by blast
  from e obtain agc where e': "encode h ag0 obs a = Inr (fs, agc)"
    and agb: "agb = agc\<lparr>z := map (\<lambda>x. x * (gamma ag * lambd ag)) (z ag)\<rparr>"
    by (auto simp: encode_z)
  from encode_upd[OF e'] ag0 obtain tc2 where agc: "agc = ag\<lparr>encoder := tc2\<rparr>" by auto
  from a1 agb agc have ag1: "ag1 = ag\<lparr>encoder := tc2, z := z'\<rparr>" by simp
  from get_q_upd[OF q] obtain tc3 where "ag2 = ag1\<lparr>encoder := tc3\<rparr>" by blast
  with ag1 have ag2: "ag2 = ag\<lparr>encoder := tc3, z := z'\<rparr>" by simp
  show ?thesis
  proof (rule mid_episode[of q' tc1 fs tc2 z' q tc3 w'])
    show "\<not> d" by (rule False)
    show "get_q h ag obs' a' = Inr (q', ag\<lparr>encoder := tc1\<rparr>)" using q0 ag0 by simp
    show "encode h (ag\<lparr>encoder := tc1\<rparr>) obs a = Inr (fs, ag\<lparr>encoder := tc2\<rparr>)"
      using e' ag0 agc by simp
    show "np_setitem (map (\<lambda>x. x * (gamma ag * lambd ag)) (z ag)) fs 1 = Inr z'" by (rule s)
    show "get_q h (ag\<lparr>encoder := tc2, z := z'\<rparr>) obs a = Inr (q, ag\<lparr>encoder := tc3, z := z'\<rparr>)"
      using q ag1 ag2 by simp
    show "np_iadd (w ag) (map (\<lambda>x. learning_rate ag * (r + gamma ag * q' - q) * x) z') = Inr w'"
      using i ag1 u by simp
    show "ag' = ag\<lparr>encoder := tc3, w := w', z := z'\<rparr>" using a ag2 by simp
  qed
qed

lemma init_Inr:
  assumes "SARSALambdaAgent_init env L F g lr eps lam = Inr ag0"
  shows "0 \<le> F" "encoder ag0 = TileCoder_init L F" "w ag0 = replicate (nat F) 0"
    "z ag0 = replicate (nat F) 0" "gamma ag0 = g" "lambd ag0 = lam" "learning_rate ag0 = lr"
    "epsilon ag0 = eps" "action_n ag0 = action_space_n env"
  using assms
  by (auto simp: SARSALambdaAgent_init_def bind_err_eq_Inr split: if_splits)

lemma init_ok:
  assumes "SARSALambdaAgent_init env L F g lr eps lam = Inr ag0"
  shows "lambda_ok ag0"
  using init_Inr[OF assms] TileCoder_init_ok[of L F]
  by (simp add: lambda_ok_def agent_ok_def TileCoder_init_def)

lemma learn_frame:
  assumes "learn h ag obs a r obs' d a' = Inr ag'"
  shows "gamma ag' = gamma ag" "lambd ag' = lambd ag" "learning_rate ag' = learning_rate ag"
    "epsilon ag' = epsilon ag" "action_n ag' = action_n ag"
  using assms by (cases rule: learn_cases; simp)+

lemma learn_ok:
  assumes ok: "lambda_ok ag" and l: "learn h ag obs a r obs' d a' = Inr ag'"
  shows "lambda_ok ag'"
  using l
proof (cases rule: learn_cases)
  case (at_end q tc w')
  from ok at_end(2) have "agent_ok (ag\<lparr>encoder := tc\<rparr>)"
    by (auto simp: lambda_ok_def dest: get_q_ok)
  moreover from at_end(3) have "length w' = length (w ag)" by (rule np_iadd_length)
  ultimately show ?thesis using ok at_end(4)
    by (simp add: lambda_ok_def agent_ok_def)
next
  case (mid_episode q' tc1 fs tc2 z' q tc3 w')
  from ok mid_episode(2) have "agent_ok (ag\<lparr>encoder := tc1\<rparr>)"
    by (auto simp: lambda_ok_def dest: get_q_ok)
  with mid_episode(3) have "agent_ok (ag\<lparr>encoder := tc2\<rparr>)" by (auto dest: encode_ok(1))
  then have a2: "agent_ok (ag\<lparr>encoder := tc2, z := z'\<rparr>)" by (simp add: agent_ok_def)
  have "agent_ok (ag\<lparr>encoder := tc3, z := z'\<rparr>)" by (rule get_q_ok[OF a2 mid_episode(5)])
  moreover from mid_episode(6) have "length w' = length (w ag)" by (rule np_iadd_length)
  moreover from mid_episode(4) have "length z' = length (z ag)" by (auto dest: np_setitem_length)
  ultimately show ?thesis using ok mid_episode(7)
    by (simp add: lambda_ok_def agent_ok_def)
qed

lemma get_qs_upd:
  "get_qs h ag obs acts = Inr (qs, ag') \<Longrightarrow> \<exists>tc'. ag' = ag\<lparr>encoder := tc'\<rparr> \<and> grows_to (encoder ag) tc'"
proof (induction acts arbitrary: ag qs)
  case Nil
  then show ?case by (auto intro: exI[of _ "encoder ag"] simp: grows_to_refl)
next
  case (Cons b acts)
  from Cons.prems obtain q ag1 qs' where q: "get_q h ag obs (PInt b) = Inr (q, ag1)"
    and r: "get_qs h ag1 obs acts = Inr (qs', ag')"
    by (auto simp: bind_err_eq_Inr)
  from get_q_upd[OF q] obtain tc1 where 1: "ag1 = ag\<lparr>encoder := tc1\<rparr>" "grows_to (encoder ag) tc1"
    by blast
  from Cons.IH[OF r] obtain tc2 where 2: "ag' = ag1\<lparr>encoder := tc2\<rparr>" "grows_to (encoder ag1) tc2"
    by blast
  from 1 2 have "ag' = ag\<lparr>encoder := tc2\<rparr>" "grows_to (encoder ag) tc2"
    by (auto intro: grows_to_trans)
  then show ?case by blast
qed

lemma get_qs_ok: "agent_ok ag \<Longrightarrow> get_qs h ag obs acts = Inr (qs, ag') \<Longrightarrow> agent_ok ag'"
proof (induction acts arbitrary: ag qs)
  case Nil then show ?case by simp
next
  case (Cons b acts)
  then show ?case by (auto simp: bind_err_eq_Inr dest: get_q_ok)
qed

lemma decide_upd:
  assumes "decide h ag rand ri obs = Inr (act, ag')"
  shows "\<exists>tc'. ag' = ag\<lparr>encoder := tc'\<rparr> \<and> grows_to (encoder ag) tc'"
proof (cases "rand < epsilon ag")
  case True
  with assms have "ag' = ag" by (auto simp: decide_def split: if_splits)
  then show ?thesis by (auto intro: exI[of _ "encoder ag"] simp: grows_to_refl)
next
  case False
  with assms show ?thesis by (auto simp: decide_def bind_err_eq_Inr dest: get_qs_upd)
qed

lemma decide_ok:
  assumes "agent_ok ag" "decide h ag rand ri obs = Inr (act, ag')"
  shows "agent_ok ag'"
  using assms by (auto simp: decide_def bind_err_eq_Inr split: if_splits dest: get_qs_ok)

lemma step_ok: "lambda_ok ag \<Longrightarrow> step h ag c = Inr ag' \<Longrightarrow> lambda_ok ag'"
proof (cases c)
  case (Learn obs a r obs' d a')
  assume "lambda_ok ag" "step h ag c = Inr ag'"
  with Learn show ?thesis by (auto dest: learn_ok)
next
  case (Decide rand ri obs)
  assume ok: "lambda_ok ag" and s: "step h ag c = Inr ag'"
  from s Decide obtain act where d: "decide h ag rand ri obs = Inr (act, ag')"
    by (auto simp: bind_err_eq_Inr)
  from decide_upd[OF d] obtain tc' where "ag' = ag\<lparr>encoder := tc'\<rparr>" by blast
  moreover from ok d have "agent_ok ag'" by (auto simp: lambda_ok_def dest: decide_ok)
  ultimately show ?thesis using ok by (simp add: lambda_ok_def)
next
  case (SetEpsilon e)
  assume "lambda_ok ag" "step h ag c = Inr ag'"
  with SetEpsilon show ?thesis by (auto simp: lambda_ok_def)
qed

lemma run_ok: "lambda_ok ag \<Longrightarrow> run h ag cs = Inr ag' \<Longrightarrow> lambda_ok ag'"
proof (induction cs arbitrary: ag)
  case Nil then show ?case by simp
next
  case (Cons c cs)
  then show ?case by (auto simp: bind_err_eq_Inr dest: step_ok)
qed

lemma step_frame:
  assumes "step h ag c = Inr ag'"
  shows "gamma ag' = gamma ag \<and> lambd ag' = lambd ag"
proof (cases c)
  case (Learn obs a r obs' d a')
  with assms show ?thesis by (auto dest: learn_frame)
next
  case (Decide rand ri obs)
  with assms obtain act where d: "decide h ag rand ri obs = Inr (act, ag')"
    by (auto simp: bind_err_eq_Inr)
  from decide_upd[OF d] obtain tc' where "ag' = ag\<lparr>encoder := tc'\<rparr>" by blast
  then show ?thesis by simp
next
  case (SetEpsilon e)
  with assms show ?thesis by auto
qed

lemma run_frame: "run h ag cs = Inr ag' \<Longrightarrow> gamma ag' = gamma ag \<and> lambd ag' = lambd ag"
proof (induction cs arbitrary: ag)
  case Nil then show ?case by simp
next
  case (Cons c cs)
  then show ?case by (fastforce simp: bind_err_eq_Inr dest: step_frame)
qed

text \<open>A property of 0 and of 1 that the decay preserves holds of every entry of the trace.\<close>

lemma learn_trace_pred:
  assumes l: "learn h ag obs a r obs' d a' = Inr ag'"
    and b: "\<forall>x\<in>set (z ag). P x"
    and c: "\<And>x. P x \<Longrightarrow> P (x * (gamma ag * lambd ag))"
    and p0: "P 0" and p1: "P 1"
  shows "\<forall>x\<in>set (z ag'). P x"
  using l
proof (cases rule: learn_cases)
  case (at_end q tc w')
  with p0 show ?thesis by auto
next
  case (mid_episode q' tc1 fs tc2 z' q tc3 w')
  from mid_episode(4) have "set z' \<subseteq> insert 1 (set (map (\<lambda>x. x * (gamma ag * lambd ag)) (z ag)))"
    by (rule np_setitem_set)
  moreover have "\<forall>y\<in>set (map (\<lambda>x. x * (gamma ag * lambd ag)) (z ag)). P y"
    using b c by auto
  ultimately have "\<forall>y\<in>set z'. P y" using p1 by auto
  with mid_episode(7) show ?thesis by simp
qed

lemma step_trace_pred:
  assumes s: "step h ag c = Inr ag'"
    and b: "\<forall>x\<in>set (z ag). P x"
    and c: "\<And>x. P x \<Longrightarrow> P (x * (gamma ag * lambd ag))"
    and p0: "P 0" and p1: "P 1"
  shows "\<forall>x\<in>set (z ag'). P x"
proof (cases c)
  case (Learn obs a r obs' d a')
  with s have "learn h ag obs a r obs' d a' = Inr ag'" by simp
  then show ?thesis using b c p0 p1 by (rule learn_trace_pred)
next
  case (Decide rand ri obs)
  with s obtain act where d: "decide h ag rand ri obs = Inr (act, ag')"
    by (auto simp: bind_err_eq_Inr)
  from decide_upd[OF d] obtain tc' where "ag' = ag\<lparr>encoder := tc'\<rparr>" by blast
  with b show ?thesis by simp
next
  case (SetEpsilon e)
  with s b show ?thesis by auto
qed

lemma run_trace_pred:
  assumes "run h ag cs = Inr ag'"
    and "\<forall>x\<in>set (z ag). P x"
    and "\<And>x. P x \<Longrightarrow> P (x * (gamma ag * lambd ag))"
    and "P 0" and "P 1"
  shows "\<forall>x\<in>set (z ag'). P x"
  using assms
proof (induction cs arbitrary: ag)
  case Nil then show ?case by simp
next
  case (Cons c cs)
  from Cons.prems(1) obtain ag1 where s: "step h ag c = Inr ag1" and r: "run h ag1 cs = Inr ag'"
    by (auto simp: bind_err_eq_Inr)
  have b1: "\<forall>x\<in>set (z ag1). P x"
    using s Cons.prems(2,3,4,5) by (rule step_trace_pred)
  from step_frame[OF s] have f: "gamma ag1 = gamma ag" "lambd ag1 = lambd ag" by simp_all
  show ?case
  proof (rule Cons.IH[OF r b1])
    fix x :: real assume "P x"
    then show "P (x * (gamma ag1 * lambd ag1))"
      unfolding f by (rule Cons.prems(3))
  qed (rule Cons.prems)+
qed

text \<open>
  Claim C8. For an agent constructed with \<open>gamma \<ge> 0\<close> and \<open>0 \<le> lambd \<le> 1\<close>, every entry of the
  trace is non-negative in every state that a run of calls reaches.
\<close>

theorem trace_nonneg:
  assumes "SARSALambdaAgent_init env L F g lr eps lam = Inr ag0"
    and "0 \<le> g" and "0 \<le> lam" and "lam \<le> 1"
    and "run h ag0 cs = Inr ag" and "i < length (z ag)"
  shows "0 \<le> z ag ! i"
proof -
  note f = init_Inr[OF assms(1)]
  have "\<forall>x\<in>set (z ag). 0 \<le> x"
  proof (rule run_trace_pred[OF assms(5), where P = "\<lambda>x. 0 \<le> x"])
    show "\<forall>x\<in>set (z ag0). 0 \<le> x" using f by simp
    fix x :: real assume "0 \<le> x"
    with assms(2,3) show "0 \<le> x * (gamma ag0 * lambd ag0)" using f by simp
  qed simp_all
  with assms(6) show ?thesis by simp
qed

text \<open>
  Claim C9. For an agent constructed with \<open>0 \<le> gamma * lambd \<le> 1\<close>, every entry of the trace is
  at most 1 in every state that a run of calls reaches.
\<close>

theorem trace_le_one:
  assumes "SARSALambdaAgent_init env L F g lr eps lam = Inr ag0"
    and "0 \<le> g * lam" and "g * lam \<le> 1"
    and "run h ag0 cs = Inr ag" and "i < length (z ag)"
  shows "z ag ! i \<le> 1"
proof -
  note f = init_Inr[OF assms(1)]
  have "\<forall>x\<in>set (z ag). 0 \<le> x \<and> x \<le> 1"
  proof (rule run_trace_pred[OF assms(4), where P = "\<lambda>x. 0 \<le> x \<and> x \<le> 1"])
    show "\<forall>x\<in>set (z ag0). 0 \<le> x \<and> x \<le> 1" using f by simp
    fix x :: real assume "0 \<le> x \<and> x \<le> 1"
    with assms(2,3) show "0 \<le> x * (gamma ag0 * lambd ag0) \<and> x * (gamma ag0 * lambd ag0) \<le> 1"
      using f by (simp add: mult_le_one)
  qed simp_all
  with assms(5) show ?thesis by simp
qed

text \<open>
  Claim C1. Let a call of \<open>learn\<close> on the transition \<open>(obs, a, r, obs', d, a')\<close> return, on an
  agent whose trace has the shape of its weights. When \<open>d\<close> holds the target is \<open>r\<close>; otherwise
  it is \<open>r + gamma * q'\<close> with \<open>q'\<close> the estimate for \<open>(obs', a')\<close> in the state of the call.
  The estimate \<open>q\<close> for \<open>(obs, a)\<close> is computed with the weights of the call, and every entry
  \<open>i\<close> of the weights becomes \<open>w[i] + learning_rate * (target - q) * z[i]\<close>, where \<open>z\<close> is the
  trace at the time of the update: the trace of the call when \<open>d\<close> holds, the trace that the
  call leaves otherwise.
\<close>

theorem learn_weights:
  assumes l: "learn h ag obs a r obs' d a' = Inr ag'" and len: "length (z ag) = length (w ag)"
  shows "(d \<longrightarrow>
           (\<exists>q ag2. get_q h ag obs a = Inr (q, ag2) \<and>
              length (w ag') = length (w ag) \<and>
              (\<forall>i<length (w ag).
                 w ag' ! i = w ag ! i + learning_rate ag * (r - q) * z ag ! i))) \<and>
         (\<not> d \<longrightarrow>
           (\<exists>q' ag1 fs ag2 q ag3.
              get_q h ag obs' a' = Inr (q', ag1) \<and>
              encode h ag1 obs a = Inr (fs, ag2) \<and>
              get_q h (ag2\<lparr>z := z ag'\<rparr>) obs a = Inr (q, ag3) \<and>
              w ag2 = w ag \<and>
              length (w ag') = length (w ag) \<and>
              (\<forall>i<length (w ag).
                 w ag' ! i = w ag ! i + learning_rate ag * (r + gamma ag * q' - q) * z ag' ! i)))"
  using l
proof (cases rule: learn_cases)
  case (at_end q tc w')
  from at_end(3) have "length w' = length (w ag)" by (rule np_iadd_length)
  moreover have "\<forall>i<length (w ag). w' ! i = w ag ! i + learning_rate ag * (r - q) * z ag ! i"
  proof (intro allI impI)
    fix i assume i: "i < length (w ag)"
    from np_iadd_nth[OF at_end(3) _ i] len i
    show "w' ! i = w ag ! i + learning_rate ag * (r - q) * z ag ! i" by simp
  qed
  ultimately show ?thesis using at_end(1,2,4) by auto
next
  case (mid_episode q' tc1 fs tc2 z' q tc3 w')
  from mid_episode(4) have lz: "length z' = length (w ag)"
    using len by (auto dest: np_setitem_length)
  from mid_episode(6) have lw: "length w' = length (w ag)" by (rule np_iadd_length)
  have upd: "\<forall>i<length (w ag).
      w' ! i = w ag ! i + learning_rate ag * (r + gamma ag * q' - q) * z' ! i"
  proof (intro allI impI)
    fix i assume i: "i < length (w ag)"
    from np_iadd_nth[OF mid_episode(6) _ i] lz i
    show "w' ! i = w ag ! i + learning_rate ag * (r + gamma ag * q' - q) * z' ! i" by simp
  qed
  have "\<exists>q' ag1 fs ag2 q ag3.
          get_q h ag obs' a' = Inr (q', ag1) \<and>
          encode h ag1 obs a = Inr (fs, ag2) \<and>
          get_q h (ag2\<lparr>z := z ag'\<rparr>) obs a = Inr (q, ag3) \<and>
          w ag2 = w ag \<and>
          length (w ag') = length (w ag) \<and>
          (\<forall>i<length (w ag).
             w ag' ! i = w ag ! i + learning_rate ag * (r + gamma ag * q' - q) * z ag' ! i)"
  proof (intro exI conjI)
    show "get_q h ag obs' a' = Inr (q', ag\<lparr>encoder := tc1\<rparr>)" by (rule mid_episode(2))
    show "encode h (ag\<lparr>encoder := tc1\<rparr>) obs a = Inr (fs, ag\<lparr>encoder := tc2\<rparr>)"
      by (rule mid_episode(3))
    show "get_q h (ag\<lparr>encoder := tc2\<rparr>\<lparr>z := z ag'\<rparr>) obs a
            = Inr (q, ag\<lparr>encoder := tc3, z := z'\<rparr>)"
      using mid_episode(5,7) by simp
    show "w (ag\<lparr>encoder := tc2\<rparr>) = w ag" by simp
    show "length (w ag') = length (w ag)" using lw mid_episode(7) by simp
    show "\<forall>i<length (w ag).
        w ag' ! i = w ag ! i + learning_rate ag * (r + gamma ag * q' - q) * z ag' ! i"
      using upd mid_episode(7) by simp
  qed
  with mid_episode(1) show ?thesis by blast
qed

text \<open>
  Claim C2. The trace is all zeros at construction. In any state that a run reaches from the
  construction, a call of \<open>learn\<close> with \<open>done\<close> false leaves a trace whose entry \<open>i\<close> is 1
  when \<open>i\<close> is among the indices that encode \<open>(obs, a)\<close> and the old entry times
  \<open>gamma * lambd\<close> otherwise; a call with \<open>done\<close> true leaves the zero trace and has updated
  the weights with the trace it found.
\<close>

theorem trace_lifecycle:
  assumes init: "SARSALambdaAgent_init env L F g lr eps lam = Inr ag0"
    and run: "run h ag0 cs = Inr ag"
    and l: "learn h ag obs a r obs' d a' = Inr ag'"
  shows "z ag0 = replicate (nat F) 0 \<and>
         (\<not> d \<longrightarrow>
           (\<exists>q' ag1 fs ag2.
              get_q h ag obs' a' = Inr (q', ag1) \<and>
              encode h ag1 obs a = Inr (fs, ag2) \<and>
              length (z ag') = length (z ag) \<and>
              (\<forall>i<length (z ag).
                 z ag' ! i = (if int i \<in> set fs then 1 else z ag ! i * (gamma ag * lambd ag))))) \<and>
         (d \<longrightarrow>
           z ag' = replicate (length (z ag)) 0 \<and>
           (\<exists>q ag2. get_q h ag obs a = Inr (q, ag2) \<and>
              (\<forall>i<length (w ag).
                 w ag' ! i = w ag ! i + learning_rate ag * (r - q) * z ag ! i)))"
proof -
  have ok: "lambda_ok ag" using init_ok[OF init] run by (rule run_ok)
  then have len: "length (z ag) = length (w ag)" by (simp add: lambda_ok_def)
  have z0: "z ag0 = replicate (nat F) 0" by (rule init_Inr(4)[OF init])
  from l show ?thesis
  proof (cases rule: learn_cases)
    case (at_end q tc w')
    have "\<forall>i<length (w ag). w' ! i = w ag ! i + learning_rate ag * (r - q) * z ag ! i"
    proof (intro allI impI)
      fix i assume i: "i < length (w ag)"
      from np_iadd_nth[OF at_end(3) _ i] len i
      show "w' ! i = w ag ! i + learning_rate ag * (r - q) * z ag ! i" by simp
    qed
    with z0 at_end(1,2,4) show ?thesis by auto
  next
    case (mid_episode q' tc1 fs tc2 z' q tc3 w')
    from ok mid_episode(2) have "agent_ok (ag\<lparr>encoder := tc1\<rparr>)"
      by (auto simp: lambda_ok_def dest: get_q_ok)
    from encode_ok(2)[OF this mid_episode(3)] have nn: "\<forall>f\<in>set fs. 0 \<le> f" by simp
    from mid_episode(4) have lz: "length z' = length (z ag)"
      by (auto dest: np_setitem_length)
    have nth: "\<forall>i<length (z ag).
        z' ! i = (if int i \<in> set fs then 1 else z ag ! i * (gamma ag * lambd ag))"
    proof (intro allI impI)
      fix i assume i: "i < length (z ag)"
      then have "i < length (map (\<lambda>x. x * (gamma ag * lambd ag)) (z ag))" by simp
      from np_setitem_nth[OF mid_episode(4) nn this] i
      show "z' ! i = (if int i \<in> set fs then 1 else z ag ! i * (gamma ag * lambd ag))" by simp
    qed
    have "\<exists>q' ag1 fs ag2.
            get_q h ag obs' a' = Inr (q', ag1) \<and>
            encode h ag1 obs a = Inr (fs, ag2) \<and>
            length (z ag') = length (z ag) \<and>
            (\<forall>i<length (z ag).
               z ag' ! i = (if int i \<in> set fs then 1 else z ag ! i * (gamma ag * lambd ag)))"
    proof (intro exI conjI)
      show "get_q h ag obs' a' = Inr (q', ag\<lparr>encoder := tc1\<rparr>)" by (rule mid_episode(2))
      show "encode h (ag\<lparr>encoder := tc1\<rparr>) obs a = Inr (fs, ag\<lparr>encoder := tc2\<rparr>)"
        by (rule mid_episode(3))
      show "length (z ag') = length (z ag)" using lz mid_episode(7) by simp
      show "\<forall>i<length (z ag).
          z ag' ! i = (if int i \<in> set fs then 1 else z ag ! i * (gamma ag * lambd ag))"
        using nth mid_episode(7) by simp
    qed
    with z0 mid_episode(1) show ?thesis by blast
  qed
qed









lemma states_of_total:
  assumes "obs_ok ag obs"
  shows "\<exists>st. states_of ag obs = Inr st \<and> finite_floats st"
proof -
  let ?st = "map2 np_divide (map2 (-) obs (obs_low ag)) (obs_scale ag)"
  from assms have "states_of ag obs = Inr ?st"
    by (simp add: states_of_def obs_ok_def np_broadcast_def)
  moreover have "finite_floats ?st"
    using assms
    by (auto simp: finite_floats_def obs_ok_def np_divide_def dest!: set_zip_rightD split: if_splits)
  ultimately show ?thesis by blast
qed

lemma obs_ok_encoder [simp]: "obs_ok (ag\<lparr>encoder := tc\<rparr>) obs = obs_ok ag obs"
  by (simp add: obs_ok_def)

lemma obs_ok_z [simp]: "obs_ok (ag\<lparr>z := zz\<rparr>) obs = obs_ok ag obs"
  by (simp add: obs_ok_def)

lemma encode_total:
  assumes "obs_ok ag obs" "features (encoder ag) \<noteq> 0"
  shows "\<exists>fs ag'. encode h ag obs a = Inr (fs, ag')"
proof -
  from states_of_total[OF assms(1)] obtain st where
    st: "states_of ag obs = Inr st" "finite_floats st" by blast
  from TileCoder_call_total[OF st(2) assms(2)] obtain fs tc' where
    "TileCoder_call h (encoder ag) st [a] = Inr (fs, tc')" by blast
  with st(1) show ?thesis by (auto simp: encode_Inr)
qed

lemma get_q_total:
  assumes "agent_ok ag" "obs_ok ag obs" "features (encoder ag) \<noteq> 0"
  shows "\<exists>q ag'. get_q h ag obs a = Inr (q, ag')"
proof -
  from encode_total[OF assms(2,3)] obtain fs ag' where e: "encode h ag obs a = Inr (fs, ag')"
    by blast
  from encode_ok(2)[OF assms(1) e] obtain vs where "np_getitem (w ag) fs = Inr vs"
    using np_getitem_total by blast
  with e show ?thesis by (auto simp: get_q_Inr)
qed

lemma grows_features: "grows_to tc tc' \<Longrightarrow> features tc' = features tc"
  by (simp add: grows_to_def)

lemma learn_total:
  assumes ok: "lambda_ok ag" and f: "features (encoder ag) \<noteq> 0"
    and o: "obs_ok ag obs" and o': "obs_ok ag obs'"
  shows "\<exists>ag'. learn h ag obs a r obs' d a' = Inr ag'"
proof (cases d)
  case True
  from ok have aok: "agent_ok ag" and len: "length (z ag) = length (w ag)"
    by (simp_all add: lambda_ok_def)
  from get_q_total[OF aok o f] obtain q ag2 where q: "get_q h ag obs a = Inr (q, ag2)" by blast
  have "\<exists>w'. np_iadd (w ag) (map (\<lambda>x. learning_rate ag * (r - q) * x) (z ag)) = Inr w'"
    using len by (simp add: np_iadd_def)
  with True q show ?thesis by (auto simp: learn_Inr)
next
  case False
  from ok have aok: "agent_ok ag" and len: "length (z ag) = length (w ag)"
    by (simp_all add: lambda_ok_def)
  let ?zd = "map (\<lambda>x. x * (gamma ag * lambd ag)) (z ag)"
  from get_q_total[OF aok o' f] obtain q' ag1 where q1: "get_q h ag obs' a' = Inr (q', ag1)"
    by blast
  from get_q_upd[OF q1] obtain tc1 where ag1: "ag1 = ag\<lparr>encoder := tc1\<rparr>"
    and g1: "grows_to (encoder ag) tc1" by blast
  from get_q_ok[OF aok q1] have ok1: "agent_ok ag1" .
  from f g1 ag1 have f1: "features (encoder ag1) \<noteq> 0" by (simp add: grows_features)
  from o ag1 have o1: "obs_ok ag1 obs" by simp
  from encode_total[OF o1 f1] obtain fs ag2 where e: "encode h ag1 obs a = Inr (fs, ag2)" by blast
  from encode_upd[OF e] obtain tc2 where ag2: "ag2 = ag1\<lparr>encoder := tc2\<rparr>"
    and g2: "grows_to (encoder ag1) tc2" by blast
  from encode_ok[OF ok1 e] have ok2: "agent_ok ag2"
    and r: "\<forall>f\<in>set fs. 0 \<le> f \<and> f < int (length (w ag1))" by simp_all
  from r ag1 len have "\<forall>f\<in>set fs. 0 \<le> f \<and> f < int (length ?zd)" by simp
  from np_setitem_total[OF this] obtain z' where s: "np_setitem ?zd fs 1 = Inr z'" by blast
  then have lz: "length z' = length (w ag)" using len by (auto dest: np_setitem_length)
  let ?ag3 = "ag2\<lparr>z := ?zd\<rparr>\<lparr>z := z'\<rparr>"
  from e have e': "encode h (ag1\<lparr>z := ?zd\<rparr>) obs a = Inr (fs, ag2\<lparr>z := ?zd\<rparr>)"
    by (simp add: encode_z)
  from q1 e' s have t: "learn_target h ag obs a r obs' a' = Inr (r + gamma ag * q', ?ag3)"
    unfolding learn_target_Inr by blast
  from ok2 have ok3: "agent_ok ?ag3" by simp
  from o ag1 ag2 have o3: "obs_ok ?ag3 obs" by simp
  from f1 g2 ag2 have f3: "features (encoder ?ag3) \<noteq> 0" by (simp add: grows_features)
  from get_q_total[OF ok3 o3 f3] obtain q ag4 where q: "get_q h ?ag3 obs a = Inr (q, ag4)"
    by blast
  have "length (z ?ag3) = length (w ?ag3)" using lz ag1 ag2 by simp
  then have "\<exists>w'. np_iadd (w ?ag3)
      (map (\<lambda>x. learning_rate ?ag3 * (r + gamma ag * q' - q) * x) (z ?ag3)) = Inr w'"
    by (simp add: np_iadd_def)
  with False t q show ?thesis unfolding learn_Inr by simp
qed

lemma step_grows: "step h ag c = Inr ag' \<Longrightarrow> grows_to (encoder ag) (encoder ag')"
proof (cases c)
  case (Learn obs a r obs' d a')
  assume "step h ag c = Inr ag'"
  with Learn have l: "learn h ag obs a r obs' d a' = Inr ag'" by simp
  then show ?thesis
  proof (cases rule: learn_cases)
    case (at_end q tc w')
    from get_q_frame(9)[OF at_end(2)] at_end(4) show ?thesis by simp
  next
    case (mid_episode q' tc1 fs tc2 z' q tc3 w')
    from get_q_frame(9)[OF mid_episode(2)] have "grows_to (encoder ag) tc1" by simp
    moreover from encode_frame(9)[OF mid_episode(3)] have "grows_to tc1 tc2" by simp
    moreover from get_q_frame(9)[OF mid_episode(5)] have "grows_to tc2 tc3" by simp
    ultimately show ?thesis using mid_episode(7) by (auto intro: grows_to_trans)
  qed
next
  case (Decide rand ri obs)
  assume "step h ag c = Inr ag'"
  with Decide obtain act where d: "decide h ag rand ri obs = Inr (act, ag')"
    by (auto simp: bind_err_eq_Inr)
  from decide_upd[OF d] show ?thesis by auto
next
  case (SetEpsilon e)
  assume "step h ag c = Inr ag'"
  with SetEpsilon show ?thesis by (auto simp: grows_to_refl)
qed

lemma run_grows: "run h ag cs = Inr ag' \<Longrightarrow> grows_to (encoder ag) (encoder ag')"
proof (induction cs arbitrary: ag)
  case Nil then show ?case by (simp add: grows_to_refl)
next
  case (Cons c cs)
  then show ?case by (auto simp: bind_err_eq_Inr intro: grows_to_trans dest: step_grows)
qed

text \<open>When the tile coder, \<open>encode\<close>, \<open>get_q\<close> and \<open>learn\<close> return.\<close>

lemma mapM_err_Inr_D:
  "mapM_err f xs = Inr ys \<Longrightarrow> x \<in> set xs \<Longrightarrow> \<exists>y. f x = Inr y"
  by (induction xs arbitrary: ys) (auto simp: bind_err_eq_Inr)

lemma tile_coord_Inr_Fin: "tile_coord L dm l (i, f) = Inr c \<Longrightarrow> \<exists>y. f = Fin y"
  by (cases f) (simp_all add: tile_coord_def)

lemma make_codeword_Inr:
  assumes "make_codeword tc sf ints dm l = Inr cw"
  shows "finite_floats sf" "\<exists>pre. cw = pre @ ints"
proof -
  from assms obtain cs where
    m: "mapM_err (tile_coord (layers tc) dm l) (enumerate 0 sf) = Inr cs"
    and cw: "cw = [PInt l] @ map PInt cs @ ints"
    by (auto simp: make_codeword_def bind_err_eq_Inr)
  from cw show "\<exists>pre. cw = pre @ ints" by (intro exI[of _ "[PInt l] @ map PInt cs"]) simp
  show "finite_floats sf"
    unfolding finite_floats_def
  proof
    fix f assume "f \<in> set sf"
    then obtain i where "i < length sf" "sf ! i = f" by (auto simp: in_set_conv_nth)
    then have "(i, f) \<in> set (enumerate 0 sf)" by (simp add: in_set_enumerate_eq)
    from mapM_err_Inr_D[OF m this] obtain c where "tile_coord (layers tc) dm l (i, f) = Inr c"
      by blast
    then obtain y where "f = Fin y" by (auto dest: tile_coord_Inr_Fin)
    then show "f \<noteq> FInf \<and> f \<noteq> FNaN" by simp
  qed
qed

lemma scaled_finite_D:
  assumes "finite_floats (map (\<lambda>f. fmul_int (fmul_int f L) L) fl)"
  shows "finite_floats fl"
  unfolding finite_floats_def
proof
  fix f assume "f \<in> set fl"
  with assms have "fmul_int (fmul_int f L) L \<noteq> FInf \<and> fmul_int (fmul_int f L) L \<noteq> FNaN"
    by (simp add: finite_floats_def)
  then show "f \<noteq> FInf \<and> f \<noteq> FNaN" by (cases f) (auto split: if_splits)
qed

lemma TileCoder_call_Inr_finite:
  assumes "TileCoder_call h tc fl ints = Inr r" "0 < layers tc"
  shows "finite_floats fl"
proof -
  from assms(2) have "[0..<nat (layers tc)] = 0 # [Suc 0..<nat (layers tc)]"
    by (simp add: upt_conv_Cons)
  with assms(1) obtain cw where
    "make_codeword tc (map (\<lambda>f. fmul_int (fmul_int f (layers tc)) (layers tc)) fl) ints
       (int (length fl)) 0 = Inr cw"
    by (auto simp: TileCoder_call_def Let_def bind_err_eq_Inr)
  from make_codeword_Inr(1)[OF this] show ?thesis by (rule scaled_finite_D)
qed

lemma TileCoder_call_returns:
  assumes "0 < layers tc \<longrightarrow> finite_floats fl" "features tc \<noteq> 0"
  shows "\<exists>fs tc'. TileCoder_call h tc fl ints = Inr (fs, tc')"
proof (cases "0 < layers tc")
  case True
  with assms show ?thesis by (intro TileCoder_call_total) simp_all
next
  case False
  then show ?thesis by (simp add: TileCoder_call_def)
qed

lemma encodable_encoder:
  "layers tc = layers (encoder ag) \<Longrightarrow> encodable (ag\<lparr>encoder := tc\<rparr>) obs = encodable ag obs"
  by (simp add: encodable_def states_of_def split: sum.splits)

lemma encodable_z [simp]: "encodable (ag\<lparr>z := zz\<rparr>) obs = encodable ag obs"
  by (simp add: encodable_def split: sum.splits)

lemma encode_Inr_encodable: "encode h ag obs a = Inr r \<Longrightarrow> encodable ag obs"
proof -
  assume e: "encode h ag obs a = Inr r"
  obtain fs ag' where r: "r = (fs, ag')" by (cases r)
  from e r obtain st tc' where st: "states_of ag obs = Inr st"
    and c: "TileCoder_call h (encoder ag) st [a] = Inr (fs, tc')"
    by (auto simp: encode_Inr)
  from TileCoder_call_Inr_finite[OF c] st show ?thesis by (simp add: encodable_def)
qed

lemma encodable_encode:
  assumes "encodable ag obs" "features (encoder ag) \<noteq> 0"
  shows "\<exists>fs ag'. encode h ag obs a = Inr (fs, ag')"
proof -
  from assms(1) obtain st where st: "states_of ag obs = Inr st"
    and f: "0 < layers (encoder ag) \<longrightarrow> finite_floats st"
    by (auto simp: encodable_def split: sum.splits)
  from TileCoder_call_returns[OF f assms(2)] obtain fs tc' where
    "TileCoder_call h (encoder ag) st [a] = Inr (fs, tc')" by blast
  with st show ?thesis by (auto simp: encode_Inr)
qed

lemma get_q_Inr_encodable: "get_q h ag obs a = Inr r \<Longrightarrow> encodable ag obs"
  by (cases r) (auto simp: get_q_Inr dest: encode_Inr_encodable)

lemma encodable_get_q:
  assumes "agent_ok ag" "encodable ag obs" "features (encoder ag) \<noteq> 0"
  shows "\<exists>q ag'. get_q h ag obs a = Inr (q, ag')"
proof -
  from encodable_encode[OF assms(2,3)] obtain fs ag' where e: "encode h ag obs a = Inr (fs, ag')"
    by blast
  from encode_ok(2)[OF assms(1) e] obtain vs where "np_getitem (w ag) fs = Inr vs"
    using np_getitem_total by blast
  with e show ?thesis by (auto simp: get_q_Inr)
qed

lemma grows_layers: "grows_to tc tc' \<Longrightarrow> layers tc' = layers tc"
  by (simp add: grows_to_def)

lemma learn_returns_iff:
  assumes ok: "lambda_ok ag" and f: "features (encoder ag) \<noteq> 0"
  shows "(\<exists>ag'. learn h ag obs a r obs' d a' = Inr ag') \<longleftrightarrow>
         ((d \<or> encodable ag obs') \<and> encodable ag obs)"
proof
  assume "\<exists>ag'. learn h ag obs a r obs' d a' = Inr ag'"
  then obtain ag' where l: "learn h ag obs a r obs' d a' = Inr ag'" ..
  then show "(d \<or> encodable ag obs') \<and> encodable ag obs"
  proof (cases rule: learn_cases)
    case (at_end q tc w')
    from get_q_Inr_encodable[OF at_end(2)] at_end(1) show ?thesis by simp
  next
    case (mid_episode q' tc1 fs tc2 z' q tc3 w')
    from get_q_Inr_encodable[OF mid_episode(2)] have 1: "encodable ag obs'" .
    from get_q_frame(9)[OF mid_episode(2)] have "layers tc1 = layers (encoder ag)"
      by (simp add: grows_layers)
    with encode_Inr_encodable[OF mid_episode(3)] have "encodable ag obs"
      by (simp add: encodable_encoder)
    with 1 show ?thesis by simp
  qed
next
  assume a: "(d \<or> encodable ag obs') \<and> encodable ag obs"
  then have o: "encodable ag obs" by simp
  from ok have aok: "agent_ok ag" and len: "length (z ag) = length (w ag)"
    by (simp_all add: lambda_ok_def)
  show "\<exists>ag'. learn h ag obs a r obs' d a' = Inr ag'"
  proof (cases d)
    case True
    from encodable_get_q[OF aok o f] obtain q ag2 where q: "get_q h ag obs a = Inr (q, ag2)"
      by blast
    have "\<exists>w'. np_iadd (w ag) (map (\<lambda>x. learning_rate ag * (r - q) * x) (z ag)) = Inr w'"
      using len by (simp add: np_iadd_def)
    with True q show ?thesis by (auto simp: learn_Inr)
  next
    case False
    with a have o': "encodable ag obs'" by simp
    let ?zd = "map (\<lambda>x. x * (gamma ag * lambd ag)) (z ag)"
    from encodable_get_q[OF aok o' f] obtain q' ag1 where q1: "get_q h ag obs' a' = Inr (q', ag1)"
      by blast
    from get_q_upd[OF q1] obtain tc1 where ag1: "ag1 = ag\<lparr>encoder := tc1\<rparr>"
      and g1: "grows_to (encoder ag) tc1" by blast
    from get_q_ok[OF aok q1] have ok1: "agent_ok ag1" .
    from f g1 ag1 have f1: "features (encoder ag1) \<noteq> 0" by (simp add: grows_features)
    from o ag1 g1 have o1: "encodable ag1 obs" by (simp add: encodable_encoder grows_layers)
    from encodable_encode[OF o1 f1] obtain fs ag2 where e: "encode h ag1 obs a = Inr (fs, ag2)"
      by blast
    from encode_upd[OF e] obtain tc2 where ag2: "ag2 = ag1\<lparr>encoder := tc2\<rparr>"
      and g2: "grows_to (encoder ag1) tc2" by blast
    from encode_ok[OF ok1 e] have ok2: "agent_ok ag2"
      and rg: "\<forall>f\<in>set fs. 0 \<le> f \<and> f < int (length (w ag1))" by simp_all
    from rg ag1 len have "\<forall>f\<in>set fs. 0 \<le> f \<and> f < int (length ?zd)" by simp
    from np_setitem_total[OF this] obtain z' where s: "np_setitem ?zd fs 1 = Inr z'" by blast
    then have lz: "length z' = length (w ag)" using len by (auto dest: np_setitem_length)
    let ?ag3 = "ag2\<lparr>z := ?zd\<rparr>\<lparr>z := z'\<rparr>"
    from e have e': "encode h (ag1\<lparr>z := ?zd\<rparr>) obs a = Inr (fs, ag2\<lparr>z := ?zd\<rparr>)"
      by (simp add: encode_z)
    from q1 e' s have t: "learn_target h ag obs a r obs' a' = Inr (r + gamma ag * q', ?ag3)"
      unfolding learn_target_Inr by blast
    from ok2 have ok3: "agent_ok ?ag3" by simp
    from o1 ag2 g2 have o3: "encodable ?ag3 obs" by (simp add: encodable_encoder grows_layers)
    from f1 g2 ag2 have f3: "features (encoder ?ag3) \<noteq> 0" by (simp add: grows_features)
    from encodable_get_q[OF ok3 o3 f3] obtain q ag4 where q: "get_q h ?ag3 obs a = Inr (q, ag4)"
      by blast
    have "length (z ?ag3) = length (w ?ag3)" using lz ag1 ag2 by simp
    then have "\<exists>w'. np_iadd (w ?ag3)
        (map (\<lambda>x. learning_rate ?ag3 * (r + gamma ag * q' - q) * x) (z ?ag3)) = Inr w'"
      by (simp add: np_iadd_def)
    with False t q show ?thesis unfolding learn_Inr by simp
  qed
qed

lemma get_feature_keys:
  "get_feature h tc cw = Inr (i, tc') \<Longrightarrow>
     set (map fst (codebook tc')) \<subseteq> insert cw (set (map fst (codebook tc)))"
  by (auto simp: get_feature_def Let_def split: option.splits if_splits)

lemma call_loop_keys:
  assumes "call_loop h sf ints dm ls tc acc = Inr (fs, tc')" "k \<in> set (map fst (codebook tc'))"
  shows "k \<in> set (map fst (codebook tc)) \<or> (\<exists>pre. k = pre @ ints)"
  using assms
proof (induction ls arbitrary: tc acc)
  case Nil then show ?case by simp
next
  case (Cons l ls)
  from Cons.prems(1) obtain cw i tc1 where
    mk: "make_codeword tc sf ints dm l = Inr cw" and
    g: "get_feature h tc cw = Inr (i, tc1)" and
    r: "call_loop h sf ints dm ls tc1 (acc @ [i]) = Inr (fs, tc')"
    by (auto simp: bind_err_eq_Inr)
  from Cons.IH[OF r Cons.prems(2)] have "k \<in> set (map fst (codebook tc1)) \<or> (\<exists>pre. k = pre @ ints)" .
  moreover from get_feature_keys[OF g]
  have "k \<in> set (map fst (codebook tc1)) \<Longrightarrow> k = cw \<or> k \<in> set (map fst (codebook tc))" by auto
  moreover from make_codeword_Inr(2)[OF mk] have "\<exists>pre. cw = pre @ ints" .
  ultimately show ?case by blast
qed

lemma TileCoder_call_keys:
  assumes "TileCoder_call h tc fl ints = Inr (fs, tc')" "k \<in> set (map fst (codebook tc'))"
  shows "k \<in> set (map fst (codebook tc)) \<or> (\<exists>pre. k = pre @ ints)"
  using assms unfolding TileCoder_call_def Let_def by (rule call_loop_keys)

text \<open>
  Claim C7, as amended. \<open>learn\<close> does not check that \<open>action_next\<close> is present exactly when
  \<open>done\<close> is false, and raises no error for it. With \<open>done\<close> true, \<open>action_next\<close> is ignored:
  the call is the call without it. With \<open>done\<close> false and no \<open>action_next\<close>, a call that
  returns has encoded \<open>None\<close> as the action of the next pair: the tile coder was called on the
  next observation with the discrete inputs \<open>(None,)\<close>, the codewords it added end in \<open>None\<close>,
  and the codebook that the call leaves extends that one. In every state that a run reaches
  from a construction with \<open>features \<ge> 1\<close>, such a call raises exactly when the same call with
  an \<open>action_next\<close> raises.
\<close>

theorem learn_next_action_unchecked:
  "learn h ag obs a r obs' True a' = learn h ag obs a r obs' True PNone \<and>
   (learn h ag obs a r obs' False PNone = Inr ag' \<longrightarrow>
      (\<exists>st fs tc1 vs.
         states_of ag obs' = Inr st \<and>
         TileCoder_call h (encoder ag) st [PNone] = Inr (fs, tc1) \<and>
         np_getitem (w ag) fs = Inr vs \<and>
         get_q h ag obs' PNone = Inr (sum_list vs, ag\<lparr>encoder := tc1\<rparr>) \<and>
         (\<forall>cw\<in>set (map fst (codebook tc1)).
            cw \<in> set (map fst (codebook (encoder ag))) \<or> last cw = PNone) \<and>
         grows_to tc1 (encoder ag'))) \<and>
   (SARSALambdaAgent_init env L F g lr eps lam = Inr ag0 \<and> 1 \<le> F \<and> run h ag0 cs = Inr ag \<longrightarrow>
      isl (learn h ag obs a r obs' False PNone) = isl (learn h ag obs a r obs' False a'))"
proof -
  have 1: "learn h ag obs a r obs' True a' = learn h ag obs a r obs' True PNone"
    by (simp add: learn_def)
  have 2: "\<exists>st fs tc1 vs.
         states_of ag obs' = Inr st \<and>
         TileCoder_call h (encoder ag) st [PNone] = Inr (fs, tc1) \<and>
         np_getitem (w ag) fs = Inr vs \<and>
         get_q h ag obs' PNone = Inr (sum_list vs, ag\<lparr>encoder := tc1\<rparr>) \<and>
         (\<forall>cw\<in>set (map fst (codebook tc1)).
            cw \<in> set (map fst (codebook (encoder ag))) \<or> last cw = PNone) \<and>
         grows_to tc1 (encoder ag')"
    if l: "learn h ag obs a r obs' False PNone = Inr ag'"
    using l
  proof (cases rule: learn_cases)
    case at_end
    then show ?thesis by simp
  next
    case (mid_episode q' tc1 fs2 tc2 z' q tc3 w')
    from mid_episode(2) obtain fs vs where
      e: "encode h ag obs' PNone = Inr (fs, ag\<lparr>encoder := tc1\<rparr>)" and
      v: "np_getitem (w ag) fs = Inr vs" and q': "q' = sum_list vs"
      by (auto simp: get_q_Inr)
    from e obtain st tcx where st: "states_of ag obs' = Inr st"
      and c: "TileCoder_call h (encoder ag) st [PNone] = Inr (fs, tcx)"
      and eq: "ag\<lparr>encoder := tc1\<rparr> = ag\<lparr>encoder := tcx\<rparr>"
      by (auto simp: encode_Inr)
    from eq have "encoder (ag\<lparr>encoder := tc1\<rparr>) = encoder (ag\<lparr>encoder := tcx\<rparr>)" by simp
    then have tcx: "tcx = tc1" by simp
    have keys: "\<forall>cw\<in>set (map fst (codebook tc1)).
            cw \<in> set (map fst (codebook (encoder ag))) \<or> last cw = PNone"
    proof
      fix cw assume "cw \<in> set (map fst (codebook tc1))"
      from TileCoder_call_keys[OF c[unfolded tcx] this]
      show "cw \<in> set (map fst (codebook (encoder ag))) \<or> last cw = PNone" by auto
    qed
    from encode_frame(9)[OF mid_episode(3)] have "grows_to tc1 tc2" by simp
    moreover from get_q_frame(9)[OF mid_episode(5)] have "grows_to tc2 tc3" by simp
    ultimately have "grows_to tc1 (encoder ag')" using mid_episode(7)
      by (auto intro: grows_to_trans)
    with st c tcx v q' mid_episode(2) keys show ?thesis by blast
  qed
  have 3: "isl (learn h ag obs a r obs' False PNone) = isl (learn h ag obs a r obs' False a')"
    if i: "SARSALambdaAgent_init env L F g lr eps lam = Inr ag0" and F: "1 \<le> F"
      and r: "run h ag0 cs = Inr ag"
  proof -
    have ok: "lambda_ok ag" using init_ok[OF i] r by (rule run_ok)
    from run_grows[OF r] init_Inr(2)[OF i] have "features (encoder ag) = F"
      by (simp add: grows_to_def TileCoder_init_def)
    with F have f: "features (encoder ag) \<noteq> 0" by simp
    have "(\<exists>x. learn h ag obs a r obs' False PNone = Inr x)
            = (\<exists>x. learn h ag obs a r obs' False a' = Inr x)"
      unfolding learn_returns_iff[OF ok f] ..
    then show ?thesis
      by (cases "learn h ag obs a r obs' False PNone"; cases "learn h ag obs a r obs' False a'") auto
  qed
  from 1 2 3 show ?thesis by blast
qed

section \<open>Worked examples\<close>

text \<open>
  The worked configuration evaluated: the construction, two calls of \<open>learn\<close> (the first fills
  the codebook, so that one index of the pair \<open>([1/2], 0)\<close> comes from the hash), and a greedy
  call of \<open>decide\<close>. Each theorem on the agents is then applied to these calls.
\<close>

lemmas ex_defs = example_hash_def example_env_def example_agent_def
  SARSALambdaAgent_init_def learn_def learn_target_def get_q_def encode_def
  TileCoder_call_def tile_coord_def make_codeword_def get_feature_def TileCoder_init_def
  np_broadcast_def np_divide_def np_index_def np_getitem_def np_iadd_def np_argmax_def
  decide_def upt_rec

lemma ex_init: "SARSALambdaAgent_init example_env 2 3 1 (1/2) 0 (1/2) = Inr example_agent"
  by (simp add: ex_defs eval_nat_numeral)

lemma ex_learn1:
  "learn example_hash example_agent [1/2] (PInt 0) (-1) [1/2] False (PInt 1) = Inr example_agent1"
  by (simp add: ex_defs example_agent1_def)

lemma ex_learn2:
  "learn example_hash example_agent1 [1/2] (PInt 1) (-1) [1] True PNone = Inr example_agent2"
  by (simp add: ex_defs example_agent1_def example_agent2_def)

lemma ex_run0: "run example_hash example_agent [] = Inr example_agent"
  by simp

lemma ex_run1:
  "run example_hash example_agent [Learn [1/2] (PInt 0) (-1) [1/2] False (PInt 1)] = Inr example_agent1"
  by (simp add: ex_learn1)

lemma ex_run2:
  "run example_hash example_agent
     [Learn [1/2] (PInt 0) (-1) [1/2] False (PInt 1), Decide 0 0 [1/2], SetEpsilon 0,
      Learn [1/2] (PInt 1) (-1) [1] True PNone] = Inr example_agent2"
  by (simp add: ex_learn1 ex_learn2) (simp add: ex_defs example_agent1_def example_agent2_def)


theorem learn_weights_witness:
  "learn example_hash example_agent [1/2] (PInt 0) (-1) [1/2] False (PInt 1) = Inr example_agent1 \<and>
   length (z example_agent) = length (w example_agent) \<and>
   w example_agent1 = [0, -1/2, -1/2]"
  using learn_weights [of example_hash example_agent "[1/2]" "PInt 0" "-1" "[1/2]" False "PInt 1"
      example_agent1]
  by (simp add: ex_learn1) (simp add: example_agent_def example_agent1_def)

theorem trace_lifecycle_witness:
  "SARSALambdaAgent_init example_env 2 3 1 (1/2) 0 (1/2) = Inr example_agent \<and>
   run example_hash example_agent [Learn [1/2] (PInt 0) (-1) [1/2] False (PInt 1)] = Inr example_agent1 \<and>
   learn example_hash example_agent1 [1/2] (PInt 1) (-1) [1] True PNone = Inr example_agent2 \<and>
   z example_agent = replicate (nat 3) 0 \<and>
   z example_agent2 = replicate (length (z example_agent1)) 0 \<and>
   run example_hash example_agent [] = Inr example_agent \<and>
   learn example_hash example_agent [1/2] (PInt 0) (-1) [1/2] False (PInt 1) = Inr example_agent1 \<and>
   length (z example_agent1) = length (z example_agent) \<and>
   z example_agent1 = [0, 1, 1]"
  using trace_lifecycle [OF ex_init ex_run1 ex_learn2] trace_lifecycle [OF ex_init ex_run0 ex_learn1]
    ex_init ex_run0 ex_run1 ex_learn1 ex_learn2
  by (simp add: example_agent1_def)

theorem trace_nonneg_witness:
  "SARSALambdaAgent_init example_env 2 3 1 (1/2) 0 (1/2) = Inr example_agent \<and>
   (0::real) \<le> 1 \<and> (0::real) \<le> 1/2 \<and> (1/2::real) \<le> 1 \<and>
   run example_hash example_agent [Learn [1/2] (PInt 0) (-1) [1/2] False (PInt 1)] = Inr example_agent1 \<and>
   (1::nat) < length (z example_agent1) \<and> 0 \<le> z example_agent1 ! 1"
  using trace_nonneg [OF ex_init _ _ _ ex_run1, of 1] ex_init ex_run1
  by (simp add: example_agent1_def)

theorem trace_le_one_witness:
  "SARSALambdaAgent_init example_env 2 3 1 (1/2) 0 (1/2) = Inr example_agent \<and>
   (0::real) \<le> 1 * (1/2) \<and> (1::real) * (1/2) \<le> 1 \<and>
   run example_hash example_agent [Learn [1/2] (PInt 0) (-1) [1/2] False (PInt 1)] = Inr example_agent1 \<and>
   (1::nat) < length (z example_agent1) \<and> z example_agent1 ! 1 \<le> 1"
  using trace_le_one [OF ex_init _ _ ex_run1, of 1] ex_init ex_run1
  by (simp add: example_agent1_def)

lemma ex_learn_none:
  "learn example_hash example_agent [1/2] (PInt 0) (-1) [1/2] False PNone = Inr example_agent_none"
  by (simp add: ex_defs example_agent_none_def)

lemma ex_learn_end:
  "learn example_hash example_agent [1/2] (PInt 0) (-1) [1/2] True (PInt 1) = Inr example_agent_end"
  by (simp add: ex_defs example_agent_end_def)

text \<open>
  Both violations of the precondition of claim C7 return an agent instead of failing: a call
  with \<open>done\<close> false and no \<open>action_next\<close>, and a call with \<open>done\<close> true and an
  \<open>action_next\<close>.
\<close>

theorem learn_next_action_counterexample:
  "learn example_hash example_agent [1/2] (PInt 0) (-1) [1/2] False PNone = Inr example_agent_none \<and>
   learn example_hash example_agent [1/2] (PInt 0) (-1) [1/2] True (PInt 1) = Inr example_agent_end"
  by (simp add: ex_learn_none ex_learn_end)

lemma ex_call_none:
  "TileCoder_call example_hash (encoder example_agent) [Fin (1/2)] [PNone]
     = Inr ([0, 1], example_encoder_none)"
  by (simp add: ex_defs example_encoder_none_def)

theorem learn_next_action_unchecked_witness:
  "learn example_hash example_agent [1/2] (PInt 0) (-1) [1/2] True (PInt 1) =
     learn example_hash example_agent [1/2] (PInt 0) (-1) [1/2] True PNone \<and>
   learn example_hash example_agent [1/2] (PInt 0) (-1) [1/2] False PNone = Inr example_agent_none \<and>
   TileCoder_call example_hash (encoder example_agent) [Fin (1/2)] [PNone]
     = Inr ([0, 1], example_encoder_none) \<and>
   SARSALambdaAgent_init example_env 2 3 1 (1/2) 0 (1/2) = Inr example_agent \<and> (1::int) \<le> 3 \<and>
   run example_hash example_agent [] = Inr example_agent \<and>
   isl (learn example_hash example_agent [1/2] (PInt 0) (-1) [1/2] False PNone) =
     isl (learn example_hash example_agent [1/2] (PInt 0) (-1) [1/2] False (PInt 1))"
  using learn_next_action_unchecked [of example_hash example_agent "[1/2]" "PInt 0" "-1" "[1/2]"
      "PInt 1" example_agent_none example_env 2 3 1 "1/2" 0 "1/2" example_agent "[]"]
    ex_init ex_learn_none ex_call_none
  by simp







end
